theory Spec2Isabelle
  imports Main "HOL-Library.Word" "HOL-Library.Signed_Division" "HOL-Library.Sublist"
begin

unbundle bit_operations_syntax

section \<open>Data model of disk/disk\_windows.go\<close>

text \<open>
  Results of native calls are \<open>uintptr\<close> values, taken here at 64 bits; they are only
  compared with constants. Text that comes out of a UTF-16 buffer of the system is kept as
  its sequence of code units (the conversion to a Go string is an encoding step outside the
  pipeline); the backslash is the code unit \<open>0x5C\<close> and a string ends at the first \<open>0\<close>.
  String literals of the source (\<open>"rw"\<close>, the format strings) are HOL strings.
\<close>

type_synonym uintptr = "64 word"
type_synonym utf16 = "16 word list"

datatype ctx_err = Canceled | DeadlineExceeded

text \<open>
  A Go \<open>error\<close> value is an \<open>error option\<close>, \<open>None\<close> being \<open>nil\<close>. \<open>Errno\<close> is
  \<open>syscall.Errno\<close>; \<open>Errorf_w f e\<close> is \<open>fmt.Errorf(f, e)\<close> with a \<open>%w\<close> verb,
  \<open>Errorf_s f s\<close> is \<open>fmt.Errorf(f, s)\<close> with a \<open>%s\<close> verb; \<open>WarningsRef\<close> is the
  warnings accumulator handed out as an error; \<open>CtxErr\<close> is what \<open>ctx.Err()\<close> returns.
\<close>

datatype error =
    Errno uintptr
  | Errorf_w string "error option"
  | Errorf_s string utf16
  | WarningsRef "error option list" bool
  | CtxErr ctx_err

definition ERROR_FILE_NOT_FOUND :: uintptr where "ERROR_FILE_NOT_FOUND = 2"
definition ERROR_NO_MORE_FILES :: uintptr where "ERROR_NO_MORE_FILES = 18"

definition InvalidHandle :: uintptr where "InvalidHandle = - 1"

definition DRIVE_UNKNOWN :: "'a::len word" where "DRIVE_UNKNOWN = 0"
definition DRIVE_NO_ROOT_DIR :: "'a::len word" where "DRIVE_NO_ROOT_DIR = 1"
definition DRIVE_REMOVABLE :: "'a::len word" where "DRIVE_REMOVABLE = 2"
definition DRIVE_FIXED :: "'a::len word" where "DRIVE_FIXED = 3"
definition DRIVE_REMOTE :: "'a::len word" where "DRIVE_REMOTE = 4"
definition DRIVE_CDROM :: "'a::len word" where "DRIVE_CDROM = 5"
definition DRIVE_RAMDISK :: "'a::len word" where "DRIVE_RAMDISK = 6"

definition fileFileCompression :: "64 word" where "fileFileCompression = 16"
definition fileReadOnlyVolume :: "64 word" where "fileReadOnlyVolume = 524288"

text \<open>
  Modelled from the spec: the \<open>Warnings\<close> accumulator, whose declaration is not in
  disk\_windows.go. The spec describes it as an ordered sequence of non-fatal failures that
  is returned alongside the records: \<open>Add\<close> appends one entry, \<open>Reference\<close> hands the
  accumulated warnings to the caller and is \<open>nil\<close> when nothing was recorded.
\<close>

record Warnings =
  List :: "error option list"
  Verbose :: bool

definition Add :: "Warnings \<Rightarrow> error option \<Rightarrow> Warnings" where
  "Add w e = w\<lparr>List := List w @ [e]\<rparr>"

definition Reference :: "Warnings \<Rightarrow> error option" where
  "Reference w = (if length (List w) > 0 then Some (WarningsRef (List w) (Verbose w)) else None)"

text \<open>
  \<open>PartitionStat\<close> is declared outside disk\_windows.go; these are the fields that the
  literal of lines 183 to 188 fills in.
\<close>

record PartitionStat =
  Mountpoint :: utf16
  Device :: utf16
  Fstype :: utf16
  Opts :: "string list"

subsection \<open>String helpers\<close>

definition UTF16ToString :: "utf16 \<Rightarrow> utf16" where
  "UTF16ToString s = takeWhile (\<lambda>c. c \<noteq> 0) s"

definition TrimRight :: "utf16 \<Rightarrow> utf16 \<Rightarrow> utf16" where
  "TrimRight s cutset = rev (dropWhile (\<lambda>c. c \<in> set cutset) (rev s))"

definition backslash :: utf16 where
  "backslash = [0x5C]"

subsection \<open>The native volume API\<close>

text \<open>
  What kernel32 answers. \<open>FindNextVolumeW\<close> is the sequence of answers to the successive
  cursor-advance calls, each one the returned value, the error and the volume-name buffer;
  a call past the end of the sequence is a call that has not been answered. The other
  entries answer by argument.
\<close>

record path_names =
  pathsRet :: uintptr
  pathsErr :: "error option"
  volPathsBuf :: utf16
  returnLen :: "32 word"

record volume_information =
  driveRet :: uintptr
  infoErr :: "error option"
  fsFlags :: "32 word"
  fsNameBuf :: utf16

record kernel32 =
  FindFirstVolumeW :: "uintptr \<times> error option \<times> utf16"
  FindNextVolumeW :: "(uintptr \<times> error option \<times> utf16) list"
  GetVolumePathNamesForVolumeNameW :: "utf16 \<Rightarrow> path_names"
  GetDriveTypeW :: "utf16 \<Rightarrow> uintptr"
  GetLastError :: "error option"
  GetVolumeInformationW :: "utf16 \<Rightarrow> volume_information"

text \<open>The native calls of the producer, in the order they are made.\<close>

datatype native_call =
    CallFindFirstVolume
  | CallFindNextVolume uintptr
  | CallFindVolumeClose uintptr
  | CallGetVolumePathNames utf16
  | CallGetDriveType utf16
  | CallGetVolumeInformation utf16

section \<open>split0 and getVolumePaths\<close>

text \<open>
  The loop \<open>for to := 0; to < end; to++\<close> of \<open>split0\<close> is a fold over the indices, the
  state being \<open>(from, ss)\<close>.
\<close>

definition split0_step :: "utf16 \<Rightarrow> nat \<Rightarrow> nat \<times> utf16 list \<Rightarrow> nat \<times> utf16 list" where
  "split0_step s16 to = (\<lambda>(from, ss).
     if s16 ! to = 0 then
       (to + 1, if from < to \<and> s16 ! from \<noteq> 0 then ss @ [take (to - from) (drop from s16)] else ss)
     else (from, ss))"

definition split0 :: "utf16 \<Rightarrow> nat \<Rightarrow> utf16 list" where
  "split0 s16 end0 =
     (let end1 = (if end0 > length s16 then length s16 else end0)
      in snd (fold (split0_step s16) [0..<end1] (0, [])))"

definition getVolumePaths :: "kernel32 \<Rightarrow> utf16 \<Rightarrow> error option + utf16 list" where
  "getVolumePaths os volNameBuf =
     (let r = GetVolumePathNamesForVolumeNameW os volNameBuf
      in if pathsErr r \<noteq> None \<and> pathsRet r = 0 then Inl (pathsErr r)
         else Inr (split0 (volPathsBuf r) (unat (returnLen r))))"

section \<open>PartitionsWithContext\<close>

subsection \<open>The producer: getPartitions\<close>

text \<open>
  The state of the goroutine: the warnings, \<open>errFirstVol\<close>, the values delivered on
  \<open>retChan\<close>, the native calls made so far, and whether \<open>retChan\<close> has been closed, which
  the deferred \<open>close(retChan)\<close> does when the function returns.
\<close>

record producer =
  warnings :: Warnings
  errFirstVol :: "error option"
  sent :: "PartitionStat list"
  calls :: "native_call list"
  retChanClosed :: bool

definition call :: "native_call \<Rightarrow> producer \<Rightarrow> producer" where
  "call c st = st\<lparr>calls := calls st @ [c]\<rparr>"

definition warn :: "error option \<Rightarrow> producer \<Rightarrow> producer" where
  "warn e st = st\<lparr>warnings := Add (warnings st) e\<rparr>"

definition deliver :: "PartitionStat \<Rightarrow> producer \<Rightarrow> producer" where
  "deliver x st = st\<lparr>sent := sent st @ [x]\<rparr>"

text \<open>
  The \<open>select\<close> of the producer. The consumer leaves its loop for good when it takes the
  \<open>ctx.Done()\<close> branch, and \<open>quitChan\<close> is closed by its deferred \<open>close(quitChan)\<close>. With
  the unbuffered \<open>retChan\<close> a send goes through exactly when the consumer is still there
  to receive: \<open>cancelAt = Some k\<close> says that the consumer takes the \<open>ctx.Done()\<close> branch after
  having received \<open>k\<close> values, \<open>None\<close> that it never does. A send that cannot go through
  finds \<open>quitChan\<close> closed.
\<close>

definition receiving :: "nat option \<Rightarrow> producer \<Rightarrow> bool" where
  "receiving cancelAt st = (case cancelAt of None \<Rightarrow> True | Some k \<Rightarrow> length (sent st) < k)"

text \<open>Lines 172 to 178: the options of a volume from its filesystem flags.\<close>

definition mountOpts :: "32 word \<Rightarrow> string list" where
  "mountOpts flags =
     (let opts = [''rw''];
          opts = (if (ucast flags :: 64 word) AND fileReadOnlyVolume \<noteq> 0 then [''ro''] else opts);
          opts = (if (ucast flags :: 64 word) AND fileFileCompression \<noteq> 0 then opts @ [''compress''] else opts)
      in opts)"

text \<open>Lines 180 to 188: the value sent for a mount path whose information was read.\<close>

definition partitionStat :: "utf16 \<Rightarrow> volume_information \<Rightarrow> PartitionStat" where
  "partitionStat volPath info =
     (let path = TrimRight volPath backslash
      in \<lparr>Mountpoint = path, Device = path,
          Fstype = UTF16ToString (fsNameBuf info), Opts = mountOpts (fsFlags info)\<rparr>)"

text \<open>
  The loop \<open>for _, volPath := range volPaths\<close>. The second component of the result says
  that the goroutine returned through \<open>case <-quitChan\<close>.
\<close>

fun rangeVolPaths ::
  "kernel32 \<Rightarrow> nat option \<Rightarrow> uintptr \<Rightarrow> utf16 list \<Rightarrow> producer \<Rightarrow> producer \<times> bool" where
  "rangeVolPaths os cancelAt driveType [] st = (st, False)"
| "rangeVolPaths os cancelAt driveType (volPath # rest) st =
     (if driveType = DRIVE_REMOVABLE \<or> driveType = DRIVE_FIXED \<or> driveType = DRIVE_REMOTE
         \<or> driveType = DRIVE_CDROM then
        (let info = GetVolumeInformationW os volPath;
             st1 = call (CallGetVolumeInformation volPath) st
         in if infoErr info \<noteq> None \<and> driveRet info = 0 then
              (if driveType = DRIVE_CDROM \<or> driveType = DRIVE_REMOVABLE then
                 rangeVolPaths os cancelAt driveType rest st1
               else
                 rangeVolPaths os cancelAt driveType rest
                   (warn (Some (Errorf_w ''failed to get volume information: %w'' (infoErr info))) st1))
            else if receiving cancelAt st1 then
              rangeVolPaths os cancelAt driveType rest (deliver (partitionStat volPath info) st1)
            else (st1, True))
      else rangeVolPaths os cancelAt driveType rest st)"

text \<open>
  Lines 135 to 194: the part of the body of the outer loop that works on one volume name.
  The result says, as above, whether the goroutine returned; otherwise the outer loop goes
  on to its next iteration.
\<close>

definition volume :: "kernel32 \<Rightarrow> nat option \<Rightarrow> utf16 \<Rightarrow> producer \<Rightarrow> producer \<times> bool" where
  "volume os cancelAt volNameBuf st =
     (let st1 = call (CallGetVolumePathNames volNameBuf) st
      in case getVolumePaths os volNameBuf of
           Inl e \<Rightarrow>
             (warn (Some (Errorf_s ''failed to find paths for volume %s'' (UTF16ToString volNameBuf))) st1,
              False)
         | Inr volPaths \<Rightarrow>
             if length volPaths > 0 then
               (let driveType = GetDriveTypeW os (volPaths ! 0);
                    st2 = call (CallGetDriveType (volPaths ! 0)) st1
                in if driveType = DRIVE_UNKNOWN then (warn (GetLastError os) st2, False)
                   else rangeVolPaths os cancelAt driveType volPaths st2)
             else (st1, False))"

text \<open>
  The iterations of the outer loop after the first, one per answer of \<open>FindNextVolumeW\<close>.
  \<open>Break\<close> is the \<open>break\<close> on \<open>ERROR_NO_MORE_FILES\<close>, \<open>Return\<close> the \<open>return\<close> on
  \<open>quitChan\<close>, and \<open>Unanswered\<close> says that the loop asked for one more volume than the
  system has answered for: the goroutine is still in the loop.
\<close>

datatype flow = Break | Return | Unanswered

fun forLoop ::
  "kernel32 \<Rightarrow> nat option \<Rightarrow> uintptr \<Rightarrow> (uintptr \<times> error option \<times> utf16) list \<Rightarrow> producer
     \<Rightarrow> producer \<times> flow" where
  "forLoop os cancelAt nextVolHandle [] st = (st, Unanswered)"
| "forLoop os cancelAt nextVolHandle ((volRet, err, volNameBuf) # answers) st =
     (let st1 = call (CallFindNextVolume nextVolHandle) st
      in if err \<noteq> None \<and> volRet = 0 then
           (if err = Some (Errno ERROR_NO_MORE_FILES) then (st1, Break)
            else forLoop os cancelAt nextVolHandle answers
                   (warn (Some (Errorf_w ''failed to find next volume: %w'' err)) st1))
         else (case volume os cancelAt volNameBuf st1 of
                 (st2, True) \<Rightarrow> (st2, Return)
               | (st2, False) \<Rightarrow> forLoop os cancelAt nextVolHandle answers st2))"

text \<open>
  What runs when the goroutine returns with the handle open: the deferred
  \<open>procFindVolumeClose.Call(nextVolHandle)\<close>, then the deferred \<open>close(retChan)\<close>.
\<close>

definition deferred :: "uintptr \<Rightarrow> producer \<Rightarrow> producer" where
  "deferred nextVolHandle st = (call (CallFindVolumeClose nextVolHandle) st)\<lparr>retChanClosed := True\<rparr>"

definition start :: producer where
  "start = \<lparr>warnings = \<lparr>List = [], Verbose = True\<rparr>, errFirstVol = None, sent = [], calls = [],
            retChanClosed = False\<rparr>"

definition getPartitions :: "kernel32 \<Rightarrow> nat option \<Rightarrow> producer" where
  "getPartitions os cancelAt =
     (case FindFirstVolumeW os of (nextVolHandle, err, volNameBuf) \<Rightarrow>
        (let st = call CallFindFirstVolume start
         in if nextVolHandle = InvalidHandle then
              st\<lparr>errFirstVol := Some (Errorf_w ''failed to get first-volume: %w'' err),
                 retChanClosed := True\<rparr>
            else (case volume os cancelAt volNameBuf st of
                    (st1, True) \<Rightarrow> deferred nextVolHandle st1
                  | (st1, False) \<Rightarrow>
                      (case forLoop os cancelAt nextVolHandle (FindNextVolumeW os) st1 of
                         (st2, Unanswered) \<Rightarrow> st2
                       | (st2, _) \<Rightarrow> deferred nextVolHandle st2))))"

subsection \<open>The consumer\<close>

text \<open>
  The context: \<open>doneAt = Some k\<close> says that the loop of the consumer takes the
  \<open>ctx.Done()\<close> branch at the \<open>select\<close> it runs after having received \<open>k\<close> values (where
  several branches are ready, which one \<open>select\<close> takes is not fixed by the language, so it
  is an input here); \<open>Err\<close> is what \<open>ctx.Err()\<close> returns then.
\<close>

record Context =
  doneAt :: "nat option"
  Err :: ctx_err

text \<open>
  The loop of the consumer over what \<open>retChan\<close> still has to deliver. \<open>None\<close> is a
  consumer that waits: nothing more is sent, \<open>retChan\<close> is not closed, and the
  \<open>ctx.Done()\<close> branch is not taken.
\<close>

fun consumer ::
  "Context \<Rightarrow> producer \<Rightarrow> PartitionStat list \<Rightarrow> PartitionStat list
     \<Rightarrow> (PartitionStat list \<times> error option) option" where
  "consumer ctx p [] ret =
     (if doneAt ctx = Some (length ret) then Some (ret, Some (CtxErr (Err ctx)))
      else if retChanClosed p then
        (if errFirstVol p \<noteq> None then Some (ret, errFirstVol p)
         else Some (ret, Reference (warnings p)))
      else None)"
| "consumer ctx p (x # pending) ret =
     (if doneAt ctx = Some (length ret) then Some (ret, Some (CtxErr (Err ctx)))
      else consumer ctx p pending (ret @ [x]))"

definition PartitionsWithContext ::
  "kernel32 \<Rightarrow> Context \<Rightarrow> bool \<Rightarrow> (PartitionStat list \<times> error option) option" where
  "PartitionsWithContext os ctx all =
     (let p = getPartitions os (doneAt ctx) in consumer ctx p (sent p) [])"

section \<open>IOCountersWithContext\<close>

text \<open>\<open>diskPerformance\<close>, the \<open>DISK_PERFORMANCE\<close> structure; \<open>int64\<close> fields are 64-bit words
  read as two's complement.\<close>

record diskPerformance =
  BytesRead :: "64 word"
  BytesWritten :: "64 word"
  ReadTime :: "64 word"
  WriteTime :: "64 word"
  IdleTime :: "64 word"
  ReadCount :: "32 word"
  WriteCount :: "32 word"
  QueueDepth :: "32 word"
  SplitCount :: "32 word"
  QueryTime :: "64 word"
  StorageDeviceNumber :: "32 word"
  StorageManagerName :: "16 word list"
  alignmentPadding :: "32 word"

text \<open>
  \<open>IOCountersStat\<close> is declared outside disk\_windows.go; these are the fields that the
  literal of lines 289 to 297 fills in, each the \<open>uint64\<close> that the conversions there
  produce, and the name.
\<close>

record IOCountersStat =
  ReadBytes_of :: "64 word"
  WriteBytes_of :: "64 word"
  ReadCount_of :: "64 word"
  WriteCount_of :: "64 word"
  ReadTime_of :: "64 word"
  WriteTime_of :: "64 word"
  Name_of :: utf16

text \<open>
  What the system answers to \<open>IOCountersWithContext\<close>: \<open>GetLogicalDriveStrings\<close> gives the
  returned length, the error and what it wrote to the buffer; \<open>LastError\<close> is
  \<open>windows.GetLastError()\<close>.
\<close>

record windows =
  GetLogicalDriveStrings :: "32 word \<times> error option \<times> utf16"
  GetDriveType :: "utf16 \<Rightarrow> 32 word"
  LastError :: "error option"
  CreateFile :: "utf16 \<Rightarrow> uintptr \<times> error option"
  DeviceIoControl :: "uintptr \<Rightarrow> error option \<times> diskPerformance"

text \<open>Go's \<open>/\<close> on \<open>int64\<close>: the quotient truncated towards zero, in 64 bits.\<close>

definition div_int64 :: "64 word \<Rightarrow> 64 word \<Rightarrow> 64 word" where
  "div_int64 a b = word_of_int (sint a sdiv sint b)"

text \<open>Lines 289 to 297: the entry stored for a drive.\<close>

definition ioCountersStat :: "utf16 \<Rightarrow> diskPerformance \<Rightarrow> IOCountersStat" where
  "ioCountersStat path dp =
     \<lparr>ReadBytes_of = BytesRead dp,
      WriteBytes_of = BytesWritten dp,
      ReadCount_of = ucast (ReadCount dp),
      WriteCount_of = ucast (WriteCount dp),
      ReadTime_of = div_int64 (div_int64 (ReadTime dp) 10000) 1000,
      WriteTime_of = div_int64 (div_int64 (WriteTime dp) 10000) 1000,
      Name_of = path\<rparr>"

text \<open>
  The loop \<open>for _, v := range lpBuffer[:lpBufferLen]\<close>. The deferred
  \<open>windows.CloseHandle(h)\<close> calls do not touch what is returned and are left out.
\<close>

fun rangeLpBuffer ::
  "windows \<Rightarrow> utf16 \<Rightarrow> (utf16 \<rightharpoonup> IOCountersStat) \<Rightarrow> (utf16 \<rightharpoonup> IOCountersStat) \<times> error option" where
  "rangeLpBuffer os [] drivemap = (drivemap, None)"
| "rangeLpBuffer os (v # rest) drivemap =
     (if 0x41 \<le> v \<and> v \<le> 0x5A then
        (let path = [v, 0x3A];
             typeret = GetDriveType os path
         in if typeret = 0 then (drivemap, LastError os)
            else if typeret \<noteq> DRIVE_FIXED then rangeLpBuffer os rest drivemap
            else
              (let szDevice = [0x5C, 0x5C, 0x2E, 0x5C] @ path
               in case CreateFile os szDevice of (h, err) \<Rightarrow>
                    if err \<noteq> None then
                      (if err = Some (Errno ERROR_FILE_NOT_FOUND) then rangeLpBuffer os rest drivemap
                       else (drivemap, err))
                    else
                      (case DeviceIoControl os h of (err, dp) \<Rightarrow>
                         if err \<noteq> None then (drivemap, err)
                         else rangeLpBuffer os rest (drivemap(path \<mapsto> ioCountersStat path dp)))))
      else rangeLpBuffer os rest drivemap)"

text \<open>
  \<open>Panics\<close> is the run-time panic of the slice expression \<open>lpBuffer[:lpBufferLen]\<close> when
  the returned length is beyond the 254 elements of the buffer.
\<close>

datatype 'a outcome = Returns (returned: 'a) | Panics

definition IOCountersWithContext ::
  "windows \<Rightarrow> Context \<Rightarrow> utf16 list \<Rightarrow> ((utf16 \<rightharpoonup> IOCountersStat) \<times> error option) outcome" where
  "IOCountersWithContext os ctx names =
     (case GetLogicalDriveStrings os of (lpBufferLen, err, written) \<Rightarrow>
        (let drivemap = Map.empty;
             lpBuffer = take 254 (written @ replicate (254 - length written) 0)
         in if err \<noteq> None then Returns (drivemap, err)
            else if unat lpBufferLen > length lpBuffer then Panics
            else Returns (rangeLpBuffer os (take (unat lpBufferLen) lpBuffer) drivemap)))"

section \<open>Notions used in the statements\<close>

text \<open>
  \<open>extends st st'\<close>: the state \<open>st'\<close> comes after \<open>st\<close> in the loop of the producer. What
  was sent and what was warned is kept, in order; \<open>errFirstVol\<close> and \<open>retChan\<close> are as
  they were; the cursor is neither opened nor closed in between.
\<close>

definition extends :: "producer \<Rightarrow> producer \<Rightarrow> bool" where
  "extends st st' =
     (errFirstVol st' = errFirstVol st \<and> retChanClosed st' = retChanClosed st \<and>
      Verbose (warnings st') = Verbose (warnings st) \<and>
      prefix (List (warnings st)) (List (warnings st')) \<and>
      prefix (sent st) (sent st') \<and>
      (\<exists>cs. calls st' = calls st @ cs \<and> CallFindFirstVolume \<notin> set cs \<and>
            (\<forall>h. CallFindVolumeClose h \<notin> set cs)))"

text \<open>The answer of \<open>FindNextVolumeW\<close> on which the loop breaks: the exhaustion signal.\<close>

definition noMoreFiles :: "uintptr \<times> error option \<times> utf16 \<Rightarrow> bool" where
  "noMoreFiles a = (case a of (volRet, err, volNameBuf) \<Rightarrow>
     volRet = 0 \<and> err = Some (Errno ERROR_NO_MORE_FILES))"

text \<open>The drive types for which the source reads the volume information.\<close>

definition admitted :: "uintptr \<Rightarrow> bool" where
  "admitted driveType =
     (driveType = DRIVE_REMOVABLE \<or> driveType = DRIVE_FIXED \<or> driveType = DRIVE_REMOTE \<or>
      driveType = DRIVE_CDROM)"

text \<open>The test of line 165 on the answer of \<open>GetVolumeInformationW\<close>.\<close>

definition lookupFailed :: "volume_information \<Rightarrow> bool" where
  "lookupFailed info = (infoErr info \<noteq> None \<and> driveRet info = 0)"

section \<open>Example systems\<close>

text \<open>
  Two volume names, the roots \<open>C:\\<close> and \<open>D:\\<close>, the error value of a call that succeeded,
  the information of a read-only compressed NTFS volume, and the answer of a drive that is
  not ready.
\<close>

definition volA :: utf16 where "volA = [0x41, 0]"
definition volB :: utf16 where "volB = [0x42, 0]"
definition rootC :: utf16 where "rootC = [0x43, 0x3A, 0x5C]"
definition rootD :: utf16 where "rootD = [0x44, 0x3A, 0x5C]"

definition success :: "error option" where "success = Some (Errno 0)"

definition ntfs :: volume_information where
  "ntfs = \<lparr>driveRet = 1, infoErr = success, fsFlags = 0x80010, fsNameBuf = [0x4E, 0x54, 0x46, 0x53, 0]\<rparr>"

definition notReady :: volume_information where
  "notReady = \<lparr>driveRet = 0, infoErr = Some (Errno 21), fsFlags = 0, fsNameBuf = [0]\<rparr>"

text \<open>
  A system with two fixed volumes, \<open>volA\<close> mounted at \<open>C:\\<close> and \<open>volB\<close> at \<open>D:\\<close>, whose
  first cursor-advance call fails with \<open>ERROR_ACCESS_DENIED\<close> (5) before the second volume
  is found.
\<close>

definition twoVolumes :: kernel32 where
  "twoVolumes =
     \<lparr>FindFirstVolumeW = (7, success, volA),
      FindNextVolumeW =
        [(0, Some (Errno 5), []), (1, success, volB), (0, Some (Errno ERROR_NO_MORE_FILES), [])],
      GetVolumePathNamesForVolumeNameW = (\<lambda>v.
        \<lparr>pathsRet = 1, pathsErr = success,
         volPathsBuf = (if v = volA then rootC else rootD) @ [0, 0], returnLen = 5\<rparr>),
      GetDriveTypeW = (\<lambda>p. DRIVE_FIXED),
      GetLastError = None,
      GetVolumeInformationW = (\<lambda>p. ntfs)\<rparr>"

text \<open>A system with the single volume \<open>volA\<close> at \<open>C:\\<close>, of a given type and information.\<close>

definition oneVolume :: "uintptr \<Rightarrow> error option \<Rightarrow> volume_information \<Rightarrow> kernel32" where
  "oneVolume driveType lastError info =
     \<lparr>FindFirstVolumeW = (7, success, volA),
      FindNextVolumeW = [(0, Some (Errno ERROR_NO_MORE_FILES), [])],
      GetVolumePathNamesForVolumeNameW = (\<lambda>v.
        \<lparr>pathsRet = 1, pathsErr = success, volPathsBuf = rootC @ [0, 0], returnLen = 5\<rparr>),
      GetDriveTypeW = (\<lambda>p. driveType),
      GetLastError = lastError,
      GetVolumeInformationW = (\<lambda>p. info)\<rparr>"

text \<open>
  A fixed volume with the two mount paths \<open>C:\\<close> and \<open>D:\\<close>, of which only the first
  answers to \<open>GetVolumeInformationW\<close>.
\<close>

definition twoMounts :: kernel32 where
  "twoMounts =
     \<lparr>FindFirstVolumeW = (7, success, volA),
      FindNextVolumeW = [(0, Some (Errno ERROR_NO_MORE_FILES), [])],
      GetVolumePathNamesForVolumeNameW = (\<lambda>v.
        \<lparr>pathsRet = 1, pathsErr = success, volPathsBuf = rootC @ [0] @ rootD @ [0, 0],
         returnLen = 9\<rparr>),
      GetDriveTypeW = (\<lambda>p. DRIVE_FIXED),
      GetLastError = None,
      GetVolumeInformationW = (\<lambda>p. if p = rootC then ntfs else notReady)\<rparr>"

text \<open>A volume that is mounted nowhere, and a system whose cursor cannot be opened.\<close>

definition unmounted :: kernel32 where
  "unmounted =
     \<lparr>FindFirstVolumeW = (7, success, volA),
      FindNextVolumeW = [(0, Some (Errno ERROR_NO_MORE_FILES), [])],
      GetVolumePathNamesForVolumeNameW = (\<lambda>v.
        \<lparr>pathsRet = 1, pathsErr = success, volPathsBuf = [0], returnLen = 1\<rparr>),
      GetDriveTypeW = (\<lambda>p. DRIVE_FIXED),
      GetLastError = None,
      GetVolumeInformationW = (\<lambda>p. ntfs)\<rparr>"

definition noCursor :: kernel32 where
  "noCursor = unmounted\<lparr>FindFirstVolumeW := (InvalidHandle, Some (Errno 2), [])\<rparr>"

text \<open>A context that is never done, and one that is cancelled after \<open>k\<close> received values.\<close>

definition background :: Context where
  "background = \<lparr>doneAt = None, Err = Canceled\<rparr>"

definition cancelledAfter :: "nat \<Rightarrow> Context" where
  "cancelledAfter k = \<lparr>doneAt = Some k, Err = Canceled\<rparr>"

text \<open>
  A system with the one fixed drive \<open>C:\<close>, whose performance counters report
  ten million units of read time and of write time.
\<close>

definition driveC :: utf16 where "driveC = [0x43, 0x3A]"

definition counters :: diskPerformance where
  "counters =
     \<lparr>BytesRead = 4096, BytesWritten = 512, ReadTime = 10000000, WriteTime = 10000000,
      IdleTime = 0, ReadCount = 8, WriteCount = 1, QueueDepth = 0, SplitCount = 0, QueryTime = 0,
      StorageDeviceNumber = 0, StorageManagerName = [], alignmentPadding = 0\<rparr>"

definition oneDrive :: windows where
  "oneDrive =
     \<lparr>GetLogicalDriveStrings = (4, None, [0x43, 0x3A, 0x5C, 0]),
      GetDriveType = (\<lambda>p. DRIVE_FIXED),
      LastError = None,
      CreateFile = (\<lambda>p. (9, None)),
      DeviceIoControl = (\<lambda>h. (None, counters))\<rparr>"

lemmas drive_defs =
  DRIVE_UNKNOWN_def DRIVE_NO_ROOT_DIR_def DRIVE_REMOVABLE_def DRIVE_FIXED_def
  DRIVE_REMOTE_def DRIVE_CDROM_def DRIVE_RAMDISK_def

lemmas example_defs =
  volA_def volB_def rootC_def rootD_def success_def ntfs_def notReady_def twoVolumes_def
  oneVolume_def twoMounts_def unmounted_def noCursor_def background_def cancelledAfter_def driveC_def
  counters_def oneDrive_def

lemmas producer_defs =
  getPartitions_def volume_def getVolumePaths_def split0_def split0_step_def deferred_def
  start_def call_def warn_def deliver_def receiving_def Add_def partitionStat_def mountOpts_def
  TrimRight_def UTF16ToString_def backslash_def InvalidHandle_def ERROR_NO_MORE_FILES_def
  fileReadOnlyVolume_def fileFileCompression_def drive_defs Let_def upt_rec

section \<open>The producer keeps what it has\<close>

lemma extends_refl: "extends st st"
  by (simp add: extends_def)

lemma extends_trans: "extends a b \<Longrightarrow> extends b c \<Longrightarrow> extends a c"
  unfolding extends_def
  apply (elim conjE exE)
  apply (intro conjI)
       apply simp
      apply simp
     apply simp
    apply (erule (1) prefix_order.trans)
   apply (erule (1) prefix_order.trans)
  subgoal for cs cs' by (rule exI [of _ "cs @ cs'"]) auto
  done

lemma extends_call:
  "c \<noteq> CallFindFirstVolume \<Longrightarrow> (\<And>h. c \<noteq> CallFindVolumeClose h) \<Longrightarrow> extends st (call c st)"
  by (auto simp: extends_def call_def)

lemma extends_warn: "extends st (warn e st)"
  by (simp add: extends_def warn_def Add_def)

lemma extends_send: "extends st (deliver x st)"
  by (simp add: extends_def deliver_def)

lemma extends_rangeVolPaths: "extends st (fst (rangeVolPaths os d dt ps st))"
proof (induction ps arbitrary: st)
  case Nil
  show ?case by (simp add: extends_refl)
next
  case (Cons p ps)
  let ?st1 = "call (CallGetVolumeInformation p) st"
  have e1: "extends st ?st1" by (rule extends_call) simp_all
  have e2: "extends st (warn w ?st1)" for w
    by (rule extends_trans [OF e1 extends_warn])
  have e3: "extends st (deliver x ?st1)" for x
    by (rule extends_trans [OF e1 extends_send])
  show ?case
    using Cons.IH [of st] extends_trans [OF e1 Cons.IH [of ?st1]]
      extends_trans [OF e2 Cons.IH] extends_trans [OF e3 Cons.IH] e1
    by (auto simp: Let_def)
qed

lemma extends_volume: "extends st (fst (volume os d buf st))"
proof -
  let ?st1 = "call (CallGetVolumePathNames buf) st"
  have e1: "extends st ?st1" by (rule extends_call) simp_all
  have e2: "extends st (warn w ?st1)" for w
    by (rule extends_trans [OF e1 extends_warn])
  have e3: "extends st (call (CallGetDriveType q) ?st1)" for q
    by (rule extends_trans [OF e1 extends_call]) simp_all
  have e4: "extends st (warn w (call (CallGetDriveType q) ?st1))" for w q
    by (rule extends_trans [OF e3 extends_warn])
  have e5: "extends st (fst (rangeVolPaths os d dt ps (call (CallGetDriveType q) ?st1)))" for dt ps q
    by (rule extends_trans [OF e3 extends_rangeVolPaths])
  show ?thesis
    using e1 e2 e4 e5 by (simp add: volume_def Let_def split: sum.splits)
qed



lemma extends_forLoop: "extends st (fst (forLoop os d h answers st))"
proof (induction answers arbitrary: st)
  case Nil
  show ?case by (simp add: extends_refl)
next
  case (Cons a answers)
  obtain volRet err buf where a: "a = (volRet, err, buf)" by (cases a)
  let ?st1 = "call (CallFindNextVolume h) st"
  have e1: "extends st ?st1" by (rule extends_call) simp_all
  have e2: "extends st (fst (forLoop os d h answers (warn w ?st1)))" for w
    by (rule extends_trans [OF extends_trans [OF e1 extends_warn] Cons.IH])
  have e3: "extends st (fst (volume os d buf ?st1))"
    by (rule extends_trans [OF e1 extends_volume])
  have e4: "extends st (fst (forLoop os d h answers (fst (volume os d buf ?st1))))"
    by (rule extends_trans [OF e3 Cons.IH])
  show ?case
    using e1 e2 e3 e4 by (auto simp: a Let_def split: prod.splits bool.splits)
qed

lemma forLoop_answered:
  "\<exists>a\<in>set answers. noMoreFiles a \<Longrightarrow> snd (forLoop os d h answers st) \<noteq> Unanswered"
proof (induction answers arbitrary: st)
  case Nil
  then show ?case by simp
next
  case (Cons a answers)
  obtain volRet err buf where a: "a = (volRet, err, buf)" by (cases a)
  show ?case
  proof (cases "noMoreFiles a")
    case True
    then show ?thesis by (simp add: a noMoreFiles_def Let_def)
  next
    case False
    with Cons.prems have "\<exists>a\<in>set answers. noMoreFiles a" by simp
    from Cons.IH [OF this] show ?thesis
      by (auto simp: a Let_def split: prod.splits bool.splits)
  qed
qed

lemma extends_deferred:
  assumes "extends st0 st"
  shows "\<exists>cs. calls (deferred h st) = calls st0 @ cs @ [CallFindVolumeClose h] \<and>
           CallFindFirstVolume \<notin> set cs \<and> (\<forall>h'. CallFindVolumeClose h' \<notin> set cs)"
  using assms by (auto simp: extends_def deferred_def call_def)

section \<open>The cursor is closed\<close>

text \<open>
  C7. Once \<open>FindFirstVolumeW\<close> has given a valid handle, every return of the producer
  (which is when \<open>retChan\<close> is closed) has \<open>FindVolumeClose\<close> on that handle as its last
  native call, and as the only close: this covers the \<open>break\<close> on exhaustion and the
  \<open>return\<close> on \<open>quitChan\<close>, whenever the consumer stops. The producer does return
  whenever the answers of \<open>FindNextVolumeW\<close> contain the exhaustion signal.
\<close>

theorem handle_closed_on_every_exit:
  assumes "FindFirstVolumeW os = (h, e, buf)" and "h \<noteq> InvalidHandle"
  shows "(retChanClosed (getPartitions os d) \<longrightarrow>
            (\<exists>cs. calls (getPartitions os d) = CallFindFirstVolume # cs @ [CallFindVolumeClose h] \<and>
                  (\<forall>h'. CallFindVolumeClose h' \<notin> set cs))) \<and>
         ((\<exists>a\<in>set (FindNextVolumeW os). noMoreFiles a) \<longrightarrow> retChanClosed (getPartitions os d))"
proof -
  let ?st = "call CallFindFirstVolume start"
  have c0: "calls ?st = [CallFindFirstVolume]" and r0: "\<not> retChanClosed ?st"
    by (simp_all add: call_def start_def)
  obtain st1 q where v: "volume os d buf ?st = (st1, q)" by (cases "volume os d buf ?st")
  have e1: "extends ?st st1" using extends_volume [of ?st os d buf] by (simp add: v)
  obtain st2 fl where f: "forLoop os d h (FindNextVolumeW os) st1 = (st2, fl)"
    by (cases "forLoop os d h (FindNextVolumeW os) st1")
  have e2: "extends ?st st2"
    using extends_trans [OF e1 extends_forLoop [of st1 os d h "FindNextVolumeW os"]] by (simp add: f)
  have gp: "getPartitions os d =
      (if q then deferred h st1 else if fl = Unanswered then st2 else deferred h st2)"
    using assms by (simp add: getPartitions_def v f Let_def split: flow.splits)
  have open2: "\<not> retChanClosed st2" using e2 r0 by (simp add: extends_def)
  have closed: "retChanClosed (deferred h s)" for s by (simp add: deferred_def)
  have first: ?thesis if "q"
    using that extends_deferred [OF e1, of h] by (auto simp: gp c0 closed)
  have second: ?thesis if "\<not> q" "fl \<noteq> Unanswered"
    using that extends_deferred [OF e2, of h] by (auto simp: gp c0 closed)
  have third: ?thesis if "\<not> q" "fl = Unanswered"
    using that open2 forLoop_answered [of "FindNextVolumeW os" os d h st1] by (auto simp: gp f)
  from first second third show ?thesis by blast
qed

theorem handle_closed_on_every_exit_witness:
  "FindFirstVolumeW twoVolumes = (7, success, volA) \<and> (7 :: uintptr) \<noteq> InvalidHandle \<and>
   (\<exists>a\<in>set (FindNextVolumeW twoVolumes). noMoreFiles a) \<and>
   retChanClosed (getPartitions twoVolumes (Some 0)) \<and>
   (\<exists>cs. calls (getPartitions twoVolumes (Some 0)) =
            CallFindFirstVolume # cs @ [CallFindVolumeClose 7] \<and>
          (\<forall>h'. CallFindVolumeClose h' \<notin> set cs))"
proof -
  have h1: "FindFirstVolumeW twoVolumes = (7, success, volA)" by (simp add: twoVolumes_def)
  have h2: "(7 :: uintptr) \<noteq> InvalidHandle" by (simp add: InvalidHandle_def)
  have h3: "\<exists>a\<in>set (FindNextVolumeW twoVolumes). noMoreFiles a"
    by (simp add: twoVolumes_def noMoreFiles_def)
  show ?thesis
    using h1 h2 h3 handle_closed_on_every_exit [OF h1 h2, of "Some 0"] by blast
qed

section \<open>A failed cursor advance\<close>

text \<open>
  C1, as the claim states it, fails. In the system \<open>twoVolumes\<close> the first
  \<open>FindNextVolumeW\<close> call fails with an error that is not the exhaustion signal. The
  producer does not end the stream there: the \<open>continue\<close> of line 131 takes it back to
  the head of the loop, where it calls \<open>FindNextVolumeW\<close> again, twice more in this run,
  and the value for \<open>D:\<close> is sent after the failure.
\<close>

theorem advance_failure_counterexample:
  "hd (FindNextVolumeW twoVolumes) = (0, Some (Errno 5), []) \<and>
   calls (getPartitions twoVolumes None) =
     [CallFindFirstVolume, CallGetVolumePathNames volA, CallGetDriveType rootC,
      CallGetVolumeInformation rootC,
      CallFindNextVolume 7,
      CallFindNextVolume 7, CallGetVolumePathNames volB, CallGetDriveType rootD,
      CallGetVolumeInformation rootD,
      CallFindNextVolume 7,
      CallFindVolumeClose 7] \<and>
   map Mountpoint (sent (getPartitions twoVolumes None)) = [[0x43, 0x3A], [0x44, 0x3A]]"
  by (simp add: producer_defs example_defs)

text \<open>
  C1, amended. An answer of \<open>FindNextVolumeW\<close> that fails with an error other than the
  exhaustion signal makes the loop log the call, add exactly one warning that wraps the
  error, and go on with the next cursor-advance call. Everything sent and warned before is
  kept in order, and \<open>errFirstVol\<close> stays as it was, so the failure is not fatal.
\<close>

theorem advance_failure_warns_and_goes_on:
  assumes "err \<noteq> None" and "volRet = 0" and "err \<noteq> Some (Errno ERROR_NO_MORE_FILES)"
  shows "forLoop os d h ((volRet, err, buf) # answers) st =
           forLoop os d h answers
             (warn (Some (Errorf_w ''failed to find next volume: %w'' err))
                (call (CallFindNextVolume h) st)) \<and>
         List (warnings (warn (Some (Errorf_w ''failed to find next volume: %w'' err))
                (call (CallFindNextVolume h) st))) =
           List (warnings st) @ [Some (Errorf_w ''failed to find next volume: %w'' err)] \<and>
         extends st (fst (forLoop os d h ((volRet, err, buf) # answers) st))"
  using assms extends_forLoop [of st os d h "(volRet, err, buf) # answers"]
  by (simp add: Let_def warn_def call_def Add_def)

theorem advance_failure_warns_and_goes_on_witness:
  "Some (Errno 5) \<noteq> None \<and> (0 :: uintptr) = 0 \<and> Some (Errno 5) \<noteq> Some (Errno ERROR_NO_MORE_FILES) \<and>
   forLoop twoVolumes None 7 [(0, Some (Errno 5), []), (0, Some (Errno ERROR_NO_MORE_FILES), [])] start =
     (start\<lparr>warnings := \<lparr>List = [Some (Errorf_w ''failed to find next volume: %w'' (Some (Errno 5)))],
                          Verbose = True\<rparr>,
            calls := [CallFindNextVolume 7, CallFindNextVolume 7]\<rparr>, Break)"
proof -
  have h1: "Some (Errno 5) \<noteq> (None :: error option)" by simp
  have h2: "(0 :: uintptr) = 0" by simp
  have h3: "Some (Errno 5) \<noteq> Some (Errno ERROR_NO_MORE_FILES)" by (simp add: ERROR_NO_MORE_FILES_def)
  show ?thesis
    using h1 h3 advance_failure_warns_and_goes_on [OF h1 h2 h3, of twoVolumes None 7 "[]"
        "[(0, Some (Errno ERROR_NO_MORE_FILES), [])]" start]
    by (simp add: producer_defs)
qed

section \<open>A volume of unknown type\<close>

text \<open>
  C3, as the claim states it, fails. In a system whose single volume is classified
  \<open>DRIVE_UNKNOWN\<close>, no value is sent, but lines 145 and 146 add what \<open>GetLastError\<close>
  returns to the warnings, and the caller gets the warnings back.
\<close>

theorem unknown_type_counterexample:
  "GetDriveTypeW (oneVolume DRIVE_UNKNOWN (Some (Errno 3)) ntfs) rootC = DRIVE_UNKNOWN \<and>
   PartitionsWithContext (oneVolume DRIVE_UNKNOWN (Some (Errno 3)) ntfs) \<lparr>doneAt = None, Err = Canceled\<rparr> False =
     Some ([], Some (WarningsRef [Some (Errno 3)] True))"
  by (simp add: PartitionsWithContext_def Reference_def producer_defs example_defs)

text \<open>
  C3, amended. For a volume that has mount paths and whose first path is classified
  \<open>DRIVE_UNKNOWN\<close>, the producer sends nothing, adds exactly one entry to the warnings,
  the value of \<open>GetLastError\<close>, makes no native call after the classification, and goes on
  to the next volume.
\<close>

theorem unknown_type_warns_and_skips:
  assumes "getVolumePaths os buf = Inr ps" and "ps \<noteq> []"
    and "GetDriveTypeW os (ps ! 0) = DRIVE_UNKNOWN"
  shows "snd (volume os d buf st) = False \<and>
         sent (fst (volume os d buf st)) = sent st \<and>
         List (warnings (fst (volume os d buf st))) = List (warnings st) @ [GetLastError os] \<and>
         calls (fst (volume os d buf st)) =
           calls st @ [CallGetVolumePathNames buf, CallGetDriveType (ps ! 0)]"
  using assms by (simp add: volume_def Let_def warn_def call_def Add_def)

theorem unknown_type_warns_and_skips_witness:
  "getVolumePaths (oneVolume DRIVE_UNKNOWN (Some (Errno 3)) ntfs) volA = Inr [rootC] \<and> [rootC] \<noteq> [] \<and>
   GetDriveTypeW (oneVolume DRIVE_UNKNOWN (Some (Errno 3)) ntfs) ([rootC] ! 0) = DRIVE_UNKNOWN \<and>
   sent (fst (volume (oneVolume DRIVE_UNKNOWN (Some (Errno 3)) ntfs) None volA start)) = [] \<and>
   List (warnings (fst (volume (oneVolume DRIVE_UNKNOWN (Some (Errno 3)) ntfs) None volA start))) =
     [Some (Errno 3)]"
proof -
  let ?os = "oneVolume DRIVE_UNKNOWN (Some (Errno 3)) ntfs"
  have h1: "getVolumePaths ?os volA = Inr [rootC]"
    by (simp add: producer_defs example_defs)
  have h2: "[rootC] \<noteq> []" by simp
  have h3: "GetDriveTypeW ?os ([rootC] ! 0) = DRIVE_UNKNOWN" by (simp add: oneVolume_def)
  show ?thesis
    using h1 h3 unknown_type_warns_and_skips [OF h1 h2 h3, of None start]
    by (simp add: start_def oneVolume_def)
qed

section \<open>A failed information lookup\<close>

text \<open>
  C5. When \<open>GetVolumeInformationW\<close> fails for a mount path, the iteration for that path
  sends nothing; it adds no warning when the drive type is removable or CD-ROM, and exactly
  one warning, wrapping the error, when it is fixed or remote. In both cases the loop goes
  on with the remaining paths. (\<open>call\<close> only logs the native call and \<open>warn\<close> only
  appends to the warnings.)
\<close>

theorem failed_lookup_skips_path:
  assumes "infoErr (GetVolumeInformationW os p) \<noteq> None"
    and "driveRet (GetVolumeInformationW os p) = 0"
  shows "(dt = DRIVE_REMOVABLE \<or> dt = DRIVE_CDROM \<longrightarrow>
            rangeVolPaths os d dt (p # ps) st =
              rangeVolPaths os d dt ps (call (CallGetVolumeInformation p) st)) \<and>
         (dt = DRIVE_FIXED \<or> dt = DRIVE_REMOTE \<longrightarrow>
            rangeVolPaths os d dt (p # ps) st =
              rangeVolPaths os d dt ps
                (warn (Some (Errorf_w ''failed to get volume information: %w''
                               (infoErr (GetVolumeInformationW os p))))
                   (call (CallGetVolumeInformation p) st))) \<and>
         sent (call c st) = sent st \<and> warnings (call c st) = warnings st \<and>
         sent (warn e st) = sent st \<and> List (warnings (warn e st)) = List (warnings st) @ [e]"
  using assms by (auto simp: Let_def call_def warn_def Add_def drive_defs)

theorem failed_lookup_skips_path_witness:
  "infoErr (GetVolumeInformationW (oneVolume DRIVE_FIXED None notReady) rootC) \<noteq> None \<and>
   driveRet (GetVolumeInformationW (oneVolume DRIVE_FIXED None notReady) rootC) = 0 \<and>
   rangeVolPaths (oneVolume DRIVE_FIXED None notReady) None DRIVE_REMOVABLE [rootC] start =
     (start\<lparr>calls := [CallGetVolumeInformation rootC]\<rparr>, False) \<and>
   rangeVolPaths (oneVolume DRIVE_FIXED None notReady) None DRIVE_FIXED [rootC] start =
     (start\<lparr>calls := [CallGetVolumeInformation rootC],
            warnings := \<lparr>List = [Some (Errorf_w ''failed to get volume information: %w'' (Some (Errno 21)))],
                          Verbose = True\<rparr>\<rparr>, False)"
proof -
  let ?os = "oneVolume DRIVE_FIXED None notReady"
  have h1: "infoErr (GetVolumeInformationW ?os rootC) \<noteq> None"
    by (simp add: oneVolume_def notReady_def)
  have h2: "driveRet (GetVolumeInformationW ?os rootC) = 0"
    by (simp add: oneVolume_def notReady_def)
  show ?thesis
    using h1 h2 failed_lookup_skips_path [OF h1 h2, of DRIVE_REMOVABLE None "[]" start]
      failed_lookup_skips_path [OF h1 h2, of DRIVE_FIXED None "[]" start]
    by (simp add: start_def call_def warn_def Add_def oneVolume_def notReady_def)
qed

section \<open>What the consumer returns\<close>

lemma consumer_uncancelled:
  "doneAt ctx = None \<Longrightarrow>
   consumer ctx p pending ret =
     (if retChanClosed p then
        Some (ret @ pending, if errFirstVol p \<noteq> None then errFirstVol p else Reference (warnings p))
      else None)"
  by (induction pending arbitrary: ret) simp_all

lemma consumer_cancelled:
  "doneAt ctx = Some k \<Longrightarrow> length ret \<le> k \<Longrightarrow> k \<le> length ret + length pending \<Longrightarrow>
   consumer ctx p pending ret = Some (ret @ take (k - length ret) pending, Some (CtxErr (Err ctx)))"
proof (induction pending arbitrary: ret)
  case Nil
  then show ?case by simp
next
  case (Cons x pending)
  show ?case
  proof (cases "length ret = k")
    case True
    with Cons.prems show ?thesis by simp
  next
    case False
    with Cons.prems have "length (ret @ [x]) \<le> k" "k \<le> length (ret @ [x]) + length pending"
      by simp_all
    from Cons.IH [OF Cons.prems(1) this] False Cons.prems show ?thesis
      by (simp add: take_Cons' Suc_diff_le) 
  qed
qed

lemma consumer_result:
  "consumer ctx p pending ret = Some (r, e) \<Longrightarrow>
   (e = Some (CtxErr (Err ctx)) \<and> doneAt ctx = Some (length r) \<and> prefix r (ret @ pending)) \<or>
   (retChanClosed p \<and> r = ret @ pending \<and>
    e = (if errFirstVol p \<noteq> None then errFirstVol p else Reference (warnings p)))"
proof (induction pending arbitrary: ret)
  case Nil
  then show ?case by (auto split: if_splits)
next
  case (Cons x pending)
  show ?case
  proof (cases "doneAt ctx = Some (length ret)")
    case True
    with Cons.prems show ?thesis by auto
  next
    case False
    with Cons.prems have "consumer ctx p pending (ret @ [x]) = Some (r, e)" by simp
    from Cons.IH [OF this] show ?thesis by auto
  qed
qed

lemma errFirstVol_getPartitions:
  "errFirstVol (getPartitions os d) =
     (if fst (FindFirstVolumeW os) = InvalidHandle
      then Some (Errorf_w ''failed to get first-volume: %w'' (fst (snd (FindFirstVolumeW os))))
      else None)"
proof -
  obtain h e buf where ff: "FindFirstVolumeW os = (h, e, buf)" by (cases "FindFirstVolumeW os")
  let ?st = "call CallFindFirstVolume start"
  have e0: "errFirstVol ?st = None" by (simp add: call_def start_def)
  have e1: "errFirstVol (fst (volume os d buf ?st)) = None"
    using extends_volume [of ?st os d buf] e0 by (simp add: extends_def)
  have e2: "errFirstVol (fst (forLoop os d h (FindNextVolumeW os) (fst (volume os d buf ?st)))) = None"
    using extends_forLoop [of "fst (volume os d buf ?st)" os d h "FindNextVolumeW os"] e1
    by (simp add: extends_def)
  show ?thesis
    using e1 e2
    by (auto simp: getPartitions_def ff Let_def deferred_def call_def
        split: prod.splits bool.splits flow.splits)
qed

lemma Reference_cases: "Reference w = None \<or> (\<exists>ws v. Reference w = Some (WarningsRef ws v))"
  by (simp add: Reference_def)

lemma consumer_records:
  "consumer ctx p pending ret = Some (r, e) \<Longrightarrow> set r \<subseteq> set ret \<union> set pending"
proof (induction pending arbitrary: ret)
  case Nil
  then show ?case by (auto split: if_splits)
next
  case (Cons x pending)
  show ?case
  proof (cases "doneAt ctx = Some (length ret)")
    case True
    with Cons.prems show ?thesis by auto
  next
    case False
    with Cons.prems have "consumer ctx p pending (ret @ [x]) = Some (r, e)" by simp
    from Cons.IH [OF this] show ?thesis by auto
  qed
qed

lemma bounded_rangeVolPaths:
  "length (sent st) \<le> k \<Longrightarrow> length (sent (fst (rangeVolPaths os (Some k) dt ps st))) \<le> k"
proof (induction ps arbitrary: st)
  case Nil
  then show ?case by simp
next
  case (Cons p ps)
  let ?st1 = "call (CallGetVolumeInformation p) st"
  let ?info = "GetVolumeInformationW os p"
  have b1: "length (sent ?st1) \<le> k" using Cons.prems by (simp add: call_def)
  have b2: "length (sent (warn w ?st1)) \<le> k" for w using b1 by (simp add: warn_def)
  have b3: "length (sent (deliver x ?st1)) \<le> k" if "receiving (Some k) ?st1" for x
    using that by (simp add: deliver_def receiving_def)
  show ?case
  proof (cases "admitted dt")
    case False
    then show ?thesis using Cons.IH [OF Cons.prems] by (simp add: admitted_def)
  next
    case True
    show ?thesis
    proof (cases "lookupFailed ?info")
      case True
      then show ?thesis
        using \<open>admitted dt\<close> Cons.IH [OF b1] Cons.IH [OF b2]
        by (auto simp: admitted_def lookupFailed_def Let_def)
    next
      case False
      show ?thesis
      proof (cases "receiving (Some k) ?st1")
        case True
        from Cons.IH [OF b3 [OF True]] show ?thesis
          using \<open>admitted dt\<close> \<open>\<not> lookupFailed ?info\<close> True
          by (auto simp: admitted_def lookupFailed_def Let_def)
      next
        case False
        then show ?thesis
          using \<open>admitted dt\<close> \<open>\<not> lookupFailed ?info\<close> b1
          by (auto simp: admitted_def lookupFailed_def Let_def)
      qed
    qed
  qed
qed

lemma bounded_volume:
  "length (sent st) \<le> k \<Longrightarrow> length (sent (fst (volume os (Some k) buf st))) \<le> k"
proof -
  assume le: "length (sent st) \<le> k"
  let ?st1 = "call (CallGetVolumePathNames buf) st"
  have b1: "length (sent ?st1) \<le> k" using le by (simp add: call_def)
  have b2: "length (sent (warn w ?st1)) \<le> k" for w using b1 by (simp add: warn_def)
  have b3: "length (sent (call c ?st1)) \<le> k" for c using b1 by (simp add: call_def)
  have b4: "length (sent (warn w (call c ?st1))) \<le> k" for w c using b3 by (simp add: warn_def)
  have b5: "length (sent (fst (rangeVolPaths os (Some k) dt ps (call c ?st1)))) \<le> k" for dt ps c
    by (rule bounded_rangeVolPaths [OF b3])
  show ?thesis
    using b1 b2 b4 b5 by (simp add: volume_def Let_def split: sum.splits)
qed

lemma bounded_forLoop:
  "length (sent st) \<le> k \<Longrightarrow> length (sent (fst (forLoop os (Some k) h answers st))) \<le> k"
proof (induction answers arbitrary: st)
  case Nil
  then show ?case by simp
next
  case (Cons a answers)
  obtain volRet err buf where a: "a = (volRet, err, buf)" by (cases a)
  let ?st1 = "call (CallFindNextVolume h) st"
  have b1: "length (sent ?st1) \<le> k" using Cons.prems by (simp add: call_def)
  have b2: "length (sent (warn w ?st1)) \<le> k" for w using b1 by (simp add: warn_def)
  have b3: "length (sent (fst (volume os (Some k) buf ?st1))) \<le> k"
    by (rule bounded_volume [OF b1])
  show ?case
    using Cons.IH [OF b2] Cons.IH [OF b3] b3 b1
    by (auto simp: a Let_def split: prod.splits bool.splits)
qed

lemma bounded_getPartitions: "length (sent (getPartitions os (Some k))) \<le> k"
proof -
  obtain h e buf where ff: "FindFirstVolumeW os = (h, e, buf)" by (cases "FindFirstVolumeW os")
  let ?st = "call CallFindFirstVolume start"
  have b0: "length (sent ?st) \<le> k" by (simp add: call_def start_def)
  have b1: "length (sent (fst (volume os (Some k) buf ?st))) \<le> k"
    by (rule bounded_volume [OF b0])
  have b2: "length (sent (fst (forLoop os (Some k) h (FindNextVolumeW os)
              (fst (volume os (Some k) buf ?st))))) \<le> k"
    by (rule bounded_forLoop [OF b1])
  show ?thesis
    using b0 b1 b2
    by (auto simp: getPartitions_def ff Let_def deferred_def call_def
        split: prod.splits bool.splits flow.splits)
qed

section \<open>Cancellation\<close>

text \<open>
  C6. Let the consumer take the \<open>ctx.Done()\<close> branch after \<open>k\<close> received values. At
  that \<open>select\<close> it returns at once, whatever the producer still has to send and whether
  or not the producer ever returns, with exactly the values received so far and the error
  of the context. For the whole function: once the producer has delivered \<open>k\<close> values the
  result is these values with the error of the context, and with \<open>k = 0\<close> it is the empty
  list with that error on every system. Whenever the error of the context is returned it
  comes with exactly the \<open>k\<close> values received before. That error is neither the
  first-volume error (an \<open>Errorf_w\<close>) nor the warnings (a \<open>WarningsRef\<close>).
\<close>

theorem cancellation_returns_what_was_received:
  assumes "doneAt ctx = Some k"
  shows "(length ret = k \<longrightarrow> consumer ctx p pending ret = Some (ret, Some (CtxErr (Err ctx)))) \<and>
         (length (sent (getPartitions os (doneAt ctx))) = k \<longrightarrow>
            PartitionsWithContext os ctx all =
              Some (sent (getPartitions os (doneAt ctx)), Some (CtxErr (Err ctx)))) \<and>
         (k = 0 \<longrightarrow> PartitionsWithContext os ctx all = Some ([], Some (CtxErr (Err ctx)))) \<and>
         (\<forall>ret' c. PartitionsWithContext os ctx all = Some (ret', Some (CtxErr c)) \<longrightarrow>
            c = Err ctx \<and> length ret' = k \<and> ret' = sent (getPartitions os (doneAt ctx))) \<and>
         CtxErr (Err ctx) \<noteq> Errorf_w f e \<and> CtxErr (Err ctx) \<noteq> WarningsRef ws v"
proof -
  let ?p = "getPartitions os (doneAt ctx)"
  have le: "length (sent ?p) \<le> k" using assms by (simp add: bounded_getPartitions)
  have a: "consumer ctx p pending ret = Some (ret, Some (CtxErr (Err ctx)))" if "length ret = k"
    using that assms by (cases pending) simp_all
  have b: "PartitionsWithContext os ctx all = Some (sent ?p, Some (CtxErr (Err ctx)))"
    if "length (sent ?p) = k"
    using that consumer_cancelled [OF assms, of "[]" "sent ?p" ?p]
    by (simp add: PartitionsWithContext_def Let_def)
  have c: "PartitionsWithContext os ctx all = Some ([], Some (CtxErr (Err ctx)))" if "k = 0"
    using that le b by simp
  have d: "c = Err ctx \<and> length ret' = k \<and> ret' = sent ?p"
    if r: "PartitionsWithContext os ctx all = Some (ret', Some (CtxErr c))" for ret' c
  proof -
    from r have cr: "consumer ctx ?p (sent ?p) [] = Some (ret', Some (CtxErr c))"
      by (simp add: PartitionsWithContext_def Let_def)
    have no: "(if errFirstVol ?p \<noteq> None then errFirstVol ?p else Reference (warnings ?p))
                \<noteq> Some (CtxErr c)"
      using Reference_cases [of "warnings ?p"]
      by (auto simp: errFirstVol_getPartitions)
    from consumer_result [OF cr] no
    have "c = Err ctx" and "doneAt ctx = Some (length ret')" and pre: "prefix ret' (sent ?p)"
      by auto
    with assms have len: "length ret' = k" by simp
    from pre le len have "ret' = sent ?p"
      by (auto simp: prefix_def)
    with \<open>c = Err ctx\<close> len show ?thesis by simp
  qed
  from a b c d show ?thesis by blast
qed

theorem cancellation_returns_what_was_received_witness:
  "doneAt (cancelledAfter 1) = Some 1 \<and>
   length (sent (getPartitions twoVolumes (doneAt (cancelledAfter 1)))) = 1 \<and>
   PartitionsWithContext twoVolumes (cancelledAfter 1) False =
     Some ([\<lparr>Mountpoint = [0x43, 0x3A], Device = [0x43, 0x3A], Fstype = [0x4E, 0x54, 0x46, 0x53],
             Opts = [''ro'', ''compress'']\<rparr>], Some (CtxErr Canceled))"
proof -
  have h1: "doneAt (cancelledAfter 1) = Some 1" by (simp add: cancelledAfter_def)
  have h2: "sent (getPartitions twoVolumes (Some 1)) =
       [\<lparr>Mountpoint = [0x43, 0x3A], Device = [0x43, 0x3A], Fstype = [0x4E, 0x54, 0x46, 0x53],
         Opts = [''ro'', ''compress'']\<rparr>]"
    by (simp add: producer_defs example_defs)
  have h3: "Err (cancelledAfter 1) = Canceled" by (simp add: cancelledAfter_def)
  have h4: "length (sent (getPartitions twoVolumes (doneAt (cancelledAfter 1)))) = 1"
    by (simp only: h1 h2 list.size)
  note t = cancellation_returns_what_was_received [OF h1, of "[]" start "[]" twoVolumes False]
  from t have "PartitionsWithContext twoVolumes (cancelledAfter 1) False =
      Some (sent (getPartitions twoVolumes (doneAt (cancelledAfter 1))),
            Some (CtxErr (Err (cancelledAfter 1))))"
    using h4 by blast
  then show ?thesis
    using h1 h4 by (simp only: h1 h2 h3)
qed

section \<open>Failures of one item and failures of the whole\<close>

lemma rangeVolPaths_Cons:
  "rangeVolPaths os d dt (p # ps) st =
     (if admitted dt then
        (if lookupFailed (GetVolumeInformationW os p) then
           (if dt = DRIVE_CDROM \<or> dt = DRIVE_REMOVABLE then
              rangeVolPaths os d dt ps (call (CallGetVolumeInformation p) st)
            else rangeVolPaths os d dt ps
                   (warn (Some (Errorf_w ''failed to get volume information: %w''
                                  (infoErr (GetVolumeInformationW os p))))
                      (call (CallGetVolumeInformation p) st)))
         else if receiving d (call (CallGetVolumeInformation p) st) then
           rangeVolPaths os d dt ps
             (deliver (partitionStat p (GetVolumeInformationW os p))
                (call (CallGetVolumeInformation p) st))
         else (call (CallGetVolumeInformation p) st, True))
      else rangeVolPaths os d dt ps st)"
  by (simp add: admitted_def lookupFailed_def Let_def)

lemma rangeVolPaths_goes_on: "snd (rangeVolPaths os None dt ps st) = False"
proof (induction ps arbitrary: st)
  case Nil
  show ?case by simp
next
  case (Cons p ps)
  have r: "receiving None s" for s by (simp add: receiving_def)
  show ?case
    by (simp only: rangeVolPaths_Cons r Cons.IH if_True split: if_split) simp
qed

lemma volume_goes_on: "snd (volume os None buf st) = False"
  by (simp add: volume_def Let_def rangeVolPaths_goes_on split: sum.splits)

lemma forLoop_flow:
  "snd (forLoop os None h answers st) =
     (if \<exists>a\<in>set answers. noMoreFiles a then Break else Unanswered)"
proof (induction answers arbitrary: st)
  case Nil
  show ?case by simp
next
  case (Cons a answers)
  obtain volRet err buf where a: "a = (volRet, err, buf)" by (cases a)
  let ?st1 = "call (CallFindNextVolume h) st"
  obtain st2 where v: "volume os None buf ?st1 = (st2, False)"
    using volume_goes_on [of os buf ?st1] by (cases "volume os None buf ?st1") simp
  show ?case
  proof (cases "noMoreFiles a")
    case True
    then show ?thesis by (simp add: a noMoreFiles_def Let_def)
  next
    case False
    then show ?thesis
      using Cons.IH by (auto simp: a noMoreFiles_def Let_def v)
  qed
qed

lemma getPartitions_noCursor:
  "fst (FindFirstVolumeW os) = InvalidHandle \<Longrightarrow>
   sent (getPartitions os d) = [] \<and> retChanClosed (getPartitions os d)"
  by (cases "FindFirstVolumeW os") (simp add: getPartitions_def Let_def call_def start_def)

lemma getPartitions_returns:
  assumes "fst (FindFirstVolumeW os) \<noteq> InvalidHandle"
    and "\<exists>a\<in>set (FindNextVolumeW os). noMoreFiles a"
  shows "retChanClosed (getPartitions os d)"
proof -
  obtain h e buf where ff: "FindFirstVolumeW os = (h, e, buf)" by (cases "FindFirstVolumeW os")
  let ?st = "call CallFindFirstVolume start"
  obtain st1 q where v: "volume os d buf ?st = (st1, q)" by (cases "volume os d buf ?st")
  obtain st2 fl where f: "forLoop os d h (FindNextVolumeW os) st1 = (st2, fl)"
    by (cases "forLoop os d h (FindNextVolumeW os) st1")
  have "fl \<noteq> Unanswered"
    using forLoop_answered [OF assms(2), of os d h st1] by (simp add: f)
  then show ?thesis
    using assms(1)
    by (cases q; cases fl) (simp_all add: getPartitions_def ff v f Let_def deferred_def)
qed

text \<open>
  C4. The only error of the form \<open>fmt.Errorf\<close> that the function returns is the
  first-volume error, and it is returned only when \<open>FindFirstVolumeW\<close> gave the invalid
  handle; then it comes with no values (unless the context is done at once, the function
  does return it). What fails inside one volume never leaves that volume: with a consumer
  that goes on receiving, the work on a volume always ends with the loop going on to its next
  iteration, and the loop ends on the exhaustion signal and on nothing else. So when the
  cursor was opened and the context is never done, the function returns everything that
  was sent together with the warnings, which are never the first-volume error: a run that
  found nothing returns no values and no first-volume error, a failed one returns that
  error.
\<close>

theorem only_cursor_open_failure_is_fatal:
  "(PartitionsWithContext os ctx all = Some (ret, Some (Errorf_w f e)) \<longrightarrow>
      fst (FindFirstVolumeW os) = InvalidHandle \<and> ret = [] \<and>
      f = ''failed to get first-volume: %w'' \<and> e = fst (snd (FindFirstVolumeW os))) \<and>
   (fst (FindFirstVolumeW os) = InvalidHandle \<and> doneAt ctx \<noteq> Some 0 \<longrightarrow>
      PartitionsWithContext os ctx all =
        Some ([], Some (Errorf_w ''failed to get first-volume: %w'' (fst (snd (FindFirstVolumeW os)))))) \<and>
   snd (volume os None buf st) = False \<and>
   snd (forLoop os None h answers st) =
     (if \<exists>a\<in>set answers. noMoreFiles a then Break else Unanswered) \<and>
   (fst (FindFirstVolumeW os) \<noteq> InvalidHandle \<and> doneAt ctx = None \<and>
    (\<exists>a\<in>set (FindNextVolumeW os). noMoreFiles a) \<longrightarrow>
      PartitionsWithContext os ctx all =
        Some (sent (getPartitions os None), Reference (warnings (getPartitions os None)))) \<and>
   Reference w \<noteq> Some (Errorf_w f' e')"
proof -
  let ?p = "getPartitions os (doneAt ctx)"
  let ?fatal = "Errorf_w ''failed to get first-volume: %w'' (fst (snd (FindFirstVolumeW os)))"
  have one: "fst (FindFirstVolumeW os) = InvalidHandle \<and> ret = [] \<and>
      f = ''failed to get first-volume: %w'' \<and> e = fst (snd (FindFirstVolumeW os))"
    if r: "PartitionsWithContext os ctx all = Some (ret, Some (Errorf_w f e))"
  proof -
    from r have cr: "consumer ctx ?p (sent ?p) [] = Some (ret, Some (Errorf_w f e))"
      by (simp add: PartitionsWithContext_def Let_def)
    from consumer_result [OF cr]
    have c: "ret = sent ?p" and
      ee: "Some (Errorf_w f e) =
             (if errFirstVol ?p \<noteq> None then errFirstVol ?p else Reference (warnings ?p))"
      by auto
    have inv: "fst (FindFirstVolumeW os) = InvalidHandle"
      using ee Reference_cases [of "warnings ?p"]
      by (auto simp: errFirstVol_getPartitions split: if_splits)
    with ee have "f = ''failed to get first-volume: %w''" "e = fst (snd (FindFirstVolumeW os))"
      by (simp_all add: errFirstVol_getPartitions)
    with inv c getPartitions_noCursor [OF inv, of "doneAt ctx"] show ?thesis by simp
  qed
  have two: "PartitionsWithContext os ctx all = Some ([], Some ?fatal)"
    if inv: "fst (FindFirstVolumeW os) = InvalidHandle" and nc: "doneAt ctx \<noteq> Some 0"
    using getPartitions_noCursor [OF inv, of "doneAt ctx"] nc inv
    by (simp add: PartitionsWithContext_def Let_def errFirstVol_getPartitions)
  have five: "PartitionsWithContext os ctx all =
        Some (sent (getPartitions os None), Reference (warnings (getPartitions os None)))"
    if ok: "fst (FindFirstVolumeW os) \<noteq> InvalidHandle" and un: "doneAt ctx = None"
      and ex: "\<exists>a\<in>set (FindNextVolumeW os). noMoreFiles a"
    using getPartitions_returns [OF ok ex, of None] ok un
    by (simp add: PartitionsWithContext_def Let_def consumer_uncancelled errFirstVol_getPartitions)
  have six: "Reference w \<noteq> Some (Errorf_w f' e')"
    using Reference_cases [of w] by auto
  from one two five six volume_goes_on forLoop_flow show ?thesis by blast
qed

theorem only_cursor_open_failure_is_fatal_witness:
  "fst (FindFirstVolumeW noCursor) = InvalidHandle \<and> doneAt background \<noteq> Some 0 \<and>
   PartitionsWithContext noCursor background False =
     Some ([], Some (Errorf_w ''failed to get first-volume: %w'' (Some (Errno 2)))) \<and>
   fst (FindFirstVolumeW unmounted) \<noteq> InvalidHandle \<and> doneAt background = None \<and>
   (\<exists>a\<in>set (FindNextVolumeW unmounted). noMoreFiles a) \<and>
   PartitionsWithContext unmounted background False = Some ([], None)"
proof -
  have h1: "fst (FindFirstVolumeW noCursor) = InvalidHandle"
    by (simp add: noCursor_def unmounted_def)
  have h2: "doneAt background \<noteq> Some 0" by (simp add: background_def)
  have h3: "fst (FindFirstVolumeW unmounted) \<noteq> InvalidHandle"
    by (simp add: unmounted_def InvalidHandle_def)
  have h4: "doneAt background = None" by (simp add: background_def)
  have h5: "\<exists>a\<in>set (FindNextVolumeW unmounted). noMoreFiles a"
    by (simp add: unmounted_def noMoreFiles_def)
  have h6: "fst (snd (FindFirstVolumeW noCursor)) = Some (Errno 2)"
    by (simp add: noCursor_def unmounted_def)
  have h7: "sent (getPartitions unmounted None) = [] \<and>
            Reference (warnings (getPartitions unmounted None)) = None"
    by (simp add: producer_defs example_defs Reference_def)
  from only_cursor_open_failure_is_fatal [of noCursor background False _ _ _ _ start _ "[]"] h1 h2
  have a: "PartitionsWithContext noCursor background False =
     Some ([], Some (Errorf_w ''failed to get first-volume: %w'' (fst (snd (FindFirstVolumeW noCursor)))))"
    by blast
  from only_cursor_open_failure_is_fatal [of unmounted background False _ _ _ _ start _ "[]"] h3 h4 h5
  have b: "PartitionsWithContext unmounted background False =
        Some (sent (getPartitions unmounted None), Reference (warnings (getPartitions unmounted None)))"
    by blast
  show ?thesis
    using h1 h2 h3 h4 h5 a b by (simp only: h6 h7) simp
qed

section \<open>What is sent\<close>

lemma ucast_mask_iff:
  fixes flags :: "32 word"
  assumes "m < 2 ^ 32"
  shows "((ucast flags :: 64 word) AND word_of_nat m \<noteq> 0) = (flags AND word_of_nat m \<noteq> 0)"
proof -
  have "(ucast (flags AND word_of_nat m) :: 64 word) = ucast flags AND ucast (word_of_nat m :: 32 word)"
    by (simp add: unsigned_and_eq)
  moreover have "(ucast (word_of_nat m :: 32 word) :: 64 word) = word_of_nat m"
    using assms by (simp add: unsigned_of_nat take_bit_nat_eq_self)
  ultimately have "(ucast (flags AND word_of_nat m) :: 64 word) = ucast flags AND word_of_nat m"
    by simp
  moreover have "((ucast w :: 64 word) = 0) = (w = 0)" for w :: "32 word"
  proof -
    have "unat w < 2 ^ 32"
      using unsigned_less [of w] by simp
    also have "(2 :: nat) ^ 32 < 2 ^ 64" by simp
    finally have "unat w < 2 ^ 64" .
    then have "unat (ucast w :: 64 word) = unat w"
      by (simp add: unsigned_ucast_eq take_bit_nat_eq_self)
    then show ?thesis
      by (metis unsigned_eq_0_iff)
  qed
  ultimately show ?thesis by metis
qed

lemma mountOpts_flags:
  "mountOpts flags =
     (if flags AND 0x80000 \<noteq> 0 then [''ro''] else [''rw'']) @
     (if flags AND 0x10 \<noteq> 0 then [''compress''] else [])"
  using ucast_mask_iff [of 524288 flags] ucast_mask_iff [of 16 flags]
  by (simp add: mountOpts_def fileReadOnlyVolume_def fileFileCompression_def Let_def)

lemma sent_rangeVolPaths:
  "set (sent (fst (rangeVolPaths os d dt ps st))) \<subseteq>
     set (sent st) \<union> range (\<lambda>p. partitionStat p (GetVolumeInformationW os p))"
proof (induction ps arbitrary: st)
  case Nil
  show ?case by simp
next
  case (Cons p ps)
  let ?st1 = "call (CallGetVolumeInformation p) st"
  let ?R = "range (\<lambda>p. partitionStat p (GetVolumeInformationW os p))"
  have s1: "sent ?st1 = sent st" by (simp add: call_def)
  have s2: "sent (warn w ?st1) = sent st" for w by (simp add: warn_def call_def)
  have s3: "set (sent (deliver (partitionStat p (GetVolumeInformationW os p)) ?st1)) \<subseteq> set (sent st) \<union> ?R"
    by (auto simp: deliver_def call_def)
  have i0: "set (sent (fst (rangeVolPaths os d dt ps st))) \<subseteq> set (sent st) \<union> ?R"
    by (rule Cons.IH)
  have i1: "set (sent (fst (rangeVolPaths os d dt ps ?st1))) \<subseteq> set (sent st) \<union> ?R"
    using Cons.IH [of ?st1] by (simp only: s1)
  have i2: "set (sent (fst (rangeVolPaths os d dt ps (warn w ?st1)))) \<subseteq> set (sent st) \<union> ?R" for w
    using Cons.IH [of "warn w ?st1"] by (simp only: s2)
  have i3: "set (sent (fst (rangeVolPaths os d dt ps
              (deliver (partitionStat p (GetVolumeInformationW os p)) ?st1)))) \<subseteq> set (sent st) \<union> ?R"
    using Cons.IH [of "deliver (partitionStat p (GetVolumeInformationW os p)) ?st1"] s3 by blast
  have i4: "set (sent (fst (?st1, True))) \<subseteq> set (sent st) \<union> ?R"
    by (simp add: s1)
  show ?case
    unfolding rangeVolPaths_Cons using i0 i1 i2 i3 i4 by (simp split: if_split)
qed

lemma sent_volume:
  "set (sent (fst (volume os d buf st))) \<subseteq>
     set (sent st) \<union> range (\<lambda>p. partitionStat p (GetVolumeInformationW os p))"
proof -
  have s: "sent (call c (call c' st)) = sent st" "sent (warn w (call c st)) = sent st"
    "sent (warn w (call c (call c' st))) = sent st" "sent (call c st) = sent st" for c c' w
    by (simp_all add: call_def warn_def)
  have r: "set (sent (fst (rangeVolPaths os d dt ps (call c (call c' st))))) \<subseteq>
     set (sent st) \<union> range (\<lambda>p. partitionStat p (GetVolumeInformationW os p))" for dt ps c c'
    using sent_rangeVolPaths [of os d dt ps "call c (call c' st)"] by (simp only: s)
  show ?thesis
    using r by (auto simp: volume_def Let_def s split: sum.splits)
qed

lemma sent_forLoop:
  "set (sent (fst (forLoop os d h answers st))) \<subseteq>
     set (sent st) \<union> range (\<lambda>p. partitionStat p (GetVolumeInformationW os p))"
proof (induction answers arbitrary: st)
  case Nil
  show ?case by simp
next
  case (Cons a answers)
  obtain volRet err buf where a: "a = (volRet, err, buf)" by (cases a)
  let ?st1 = "call (CallFindNextVolume h) st"
  let ?R = "range (\<lambda>p. partitionStat p (GetVolumeInformationW os p))"
  have s1: "sent ?st1 = sent st" by (simp add: call_def)
  have s2: "sent (warn w ?st1) = sent st" for w by (simp add: warn_def call_def)
  have v: "set (sent (fst (volume os d buf ?st1))) \<subseteq> set (sent st) \<union> ?R"
    using sent_volume [of os d buf ?st1] by (simp only: s1)
  have i2: "set (sent (fst (forLoop os d h answers (warn w ?st1)))) \<subseteq> set (sent st) \<union> ?R" for w
    using Cons.IH [of "warn w ?st1"] by (simp only: s2)
  have i3: "set (sent (fst (forLoop os d h answers (fst (volume os d buf ?st1))))) \<subseteq> set (sent st) \<union> ?R"
    using Cons.IH [of "fst (volume os d buf ?st1)"] v by blast
  show ?case
    using v i2 i3 s1 by (auto simp: a Let_def split: prod.splits bool.splits)
qed

lemma sent_getPartitions:
  "set (sent (getPartitions os d)) \<subseteq> range (\<lambda>p. partitionStat p (GetVolumeInformationW os p))"
proof -
  obtain h e buf where ff: "FindFirstVolumeW os = (h, e, buf)" by (cases "FindFirstVolumeW os")
  let ?st = "call CallFindFirstVolume start"
  let ?R = "range (\<lambda>p. partitionStat p (GetVolumeInformationW os p))"
  have s0: "sent ?st = []" by (simp add: call_def start_def)
  have v: "set (sent (fst (volume os d buf ?st))) \<subseteq> ?R"
    using sent_volume [of os d buf ?st] by (simp add: s0)
  have f: "set (sent (fst (forLoop os d h (FindNextVolumeW os) (fst (volume os d buf ?st))))) \<subseteq> ?R"
    using sent_forLoop [of os d h "FindNextVolumeW os" "fst (volume os d buf ?st)"] v by blast
  have dd: "sent (deferred h s) = sent s" for s by (simp add: deferred_def call_def)
  show ?thesis
    using v f s0
    by (auto simp: getPartitions_def ff Let_def dd split: prod.splits bool.splits flow.splits)
qed

text \<open>
  C8. Every \<open>PartitionStat\<close> that the function returns was built for some mount path from
  the flags that \<open>GetVolumeInformationW\<close> reported for that path: its options are
  \<open>["ro"]\<close> when the read-only flag \<open>0x00080000\<close> is set and \<open>["rw"]\<close> otherwise,
  followed by \<open>"compress"\<close> exactly when the compression flag \<open>0x00000010\<close> is set.
\<close>

theorem options_from_flags:
  assumes "PartitionsWithContext os ctx all = Some (ret, e)" and "x \<in> set ret"
  shows "\<exists>volPath.
           Mountpoint x = TrimRight volPath backslash \<and>
           Opts x =
             (if fsFlags (GetVolumeInformationW os volPath) AND 0x80000 \<noteq> 0 then [''ro'']
              else [''rw'']) @
             (if fsFlags (GetVolumeInformationW os volPath) AND 0x10 \<noteq> 0 then [''compress'']
              else [])"
proof -
  let ?p = "getPartitions os (doneAt ctx)"
  from assms(1) have "consumer ctx ?p (sent ?p) [] = Some (ret, e)"
    by (simp add: PartitionsWithContext_def Let_def)
  from consumer_records [OF this] assms(2) have "x \<in> set (sent ?p)" by auto
  with sent_getPartitions [of os "doneAt ctx"]
  obtain volPath where x: "x = partitionStat volPath (GetVolumeInformationW os volPath)" by auto
  have "Mountpoint x = TrimRight volPath backslash"
    by (simp add: x partitionStat_def Let_def)
  moreover have "Opts x = mountOpts (fsFlags (GetVolumeInformationW os volPath))"
    by (simp add: x partitionStat_def Let_def)
  ultimately show ?thesis
    by (simp only: mountOpts_flags) blast
qed

theorem options_from_flags_witness:
  "PartitionsWithContext (oneVolume DRIVE_FIXED None ntfs) background False =
     Some ([\<lparr>Mountpoint = [0x43, 0x3A], Device = [0x43, 0x3A], Fstype = [0x4E, 0x54, 0x46, 0x53],
             Opts = [''ro'', ''compress'']\<rparr>], None) \<and>
   (\<exists>volPath.
      [0x43, 0x3A] = TrimRight volPath backslash \<and>
      [''ro'', ''compress''] =
        (if fsFlags (GetVolumeInformationW (oneVolume DRIVE_FIXED None ntfs) volPath) AND 0x80000 \<noteq> 0
         then [''ro''] else [''rw'']) @
        (if fsFlags (GetVolumeInformationW (oneVolume DRIVE_FIXED None ntfs) volPath) AND 0x10 \<noteq> 0
         then [''compress''] else []))"
proof -
  let ?x = "\<lparr>Mountpoint = [0x43, 0x3A], Device = [0x43, 0x3A], Fstype = [0x4E, 0x54, 0x46, 0x53],
             Opts = [''ro'', ''compress'']\<rparr> :: PartitionStat"
  have h1: "PartitionsWithContext (oneVolume DRIVE_FIXED None ntfs) background False =
     Some ([?x], None)"
    by (simp add: PartitionsWithContext_def Reference_def producer_defs example_defs)
  have h2: "?x \<in> set [?x]" by simp
  from options_from_flags [OF h1 h2] h1 show ?thesis by simp
qed

section \<open>One classification for a volume\<close>

lemma rangeVolPaths_not_admitted:
  "\<not> admitted dt \<Longrightarrow> rangeVolPaths os d dt ps st = (st, False)"
  by (induction ps arbitrary: st) (simp_all add: rangeVolPaths_Cons del: rangeVolPaths.simps(2))

lemma rangeVolPaths_uncancelled:
  "admitted dt \<Longrightarrow>
   calls (fst (rangeVolPaths os None dt ps st)) = calls st @ map CallGetVolumeInformation ps \<and>
   sent (fst (rangeVolPaths os None dt ps st)) =
     sent st @ map (\<lambda>p. partitionStat p (GetVolumeInformationW os p))
                 (filter (\<lambda>p. \<not> lookupFailed (GetVolumeInformationW os p)) ps)"
proof (induction ps arbitrary: st)
  case Nil
  show ?case by simp
next
  case (Cons p ps)
  have r: "receiving None s" for s by (simp add: receiving_def)
  have c: "calls (call a s) = calls s @ [a]" "sent (call a s) = sent s"
    "calls (warn w s) = calls s" "sent (warn w s) = sent s"
    "calls (deliver x s) = calls s" "sent (deliver x s) = sent s @ [x]" for a s w x
    by (simp_all add: call_def warn_def deliver_def)
  show ?case
    using Cons.prems
    by (simp add: rangeVolPaths_Cons r c Cons.IH [OF Cons.prems] del: rangeVolPaths.simps(2))
qed

lemma TrimRight_suffix: "\<exists>n. s = TrimRight s [c] @ replicate n c"
proof -
  let ?P = "\<lambda>x. x \<in> set [c]"
  have "rev s = takeWhile ?P (rev s) @ dropWhile ?P (rev s)" by simp
  then have "s = rev (dropWhile ?P (rev s)) @ rev (takeWhile ?P (rev s))"
    by (metis rev_append rev_rev_ident)
  moreover have "\<forall>y\<in>set (rev (takeWhile ?P (rev s))). y = c"
    by (auto dest: set_takeWhileD)
  then have "replicate (length (rev (takeWhile ?P (rev s)))) c = rev (takeWhile ?P (rev s))"
    by (rule replicate_length_same)
  ultimately show ?thesis
    unfolding TrimRight_def by metis
qed

lemma TrimRight_last: "TrimRight s [c] = [] \<or> last (TrimRight s [c]) \<noteq> c"
proof (cases "dropWhile (\<lambda>x. x \<in> set [c]) (rev s) = []")
  case True
  then show ?thesis by (simp add: TrimRight_def)
next
  case False
  from hd_dropWhile [OF False] have "hd (dropWhile (\<lambda>x. x \<in> set [c]) (rev s)) \<noteq> c" by simp
  with False show ?thesis by (simp add: TrimRight_def last_rev)
qed

text \<open>
  C10, as the claim states it, fails. In a system whose single volume is fixed, so admitted,
  and has the one mount path \<open>C:\\<close>, no \<open>PartitionStat\<close> is sent for that path when
  \<open>GetVolumeInformationW\<close> fails on it: line 170 skips the path after the warning.
\<close>

theorem mount_paths_counterexample:
  "getVolumePaths (oneVolume DRIVE_FIXED None notReady) volA = Inr [rootC] \<and>
   admitted (GetDriveTypeW (oneVolume DRIVE_FIXED None notReady) rootC) \<and>
   PartitionsWithContext (oneVolume DRIVE_FIXED None notReady) background False =
     Some ([], Some (WarningsRef
       [Some (Errorf_w ''failed to get volume information: %w'' (Some (Errno 21)))] True))"
  by (simp add: PartitionsWithContext_def Reference_def admitted_def producer_defs example_defs)

text \<open>
  C10, amended. For a volume with at least one mount path, in a run whose consumer goes on
  receiving: \<open>GetDriveTypeW\<close> is called exactly once, on the first mount path, and its
  answer decides for all the mount paths whether the volume information is read at all.
  For an admitted type one \<open>PartitionStat\<close> is sent, in order, for each mount path whose
  information lookup did not fail, and none otherwise. In every value sent, the mount point
  and the device are the mount path without its trailing backslashes.
\<close>

theorem one_classification_per_volume:
  assumes "getVolumePaths os buf = Inr ps" and "ps \<noteq> []"
  shows "calls (fst (volume os None buf st)) =
           calls st @ [CallGetVolumePathNames buf, CallGetDriveType (ps ! 0)] @
             (if admitted (GetDriveTypeW os (ps ! 0)) then map CallGetVolumeInformation ps else []) \<and>
         sent (fst (volume os None buf st)) =
           sent st @
             (if admitted (GetDriveTypeW os (ps ! 0))
              then map (\<lambda>p. partitionStat p (GetVolumeInformationW os p))
                     (filter (\<lambda>p. \<not> lookupFailed (GetVolumeInformationW os p)) ps)
              else []) \<and>
         Mountpoint (partitionStat p info) = TrimRight p backslash \<and>
         Device (partitionStat p info) = TrimRight p backslash \<and>
         (\<exists>n. p = TrimRight p backslash @ replicate n 0x5C) \<and>
         (TrimRight p backslash = [] \<or> last (TrimRight p backslash) \<noteq> 0x5C)"
proof -
  let ?dt = "GetDriveTypeW os (ps ! 0)"
  let ?st2 = "call (CallGetDriveType (ps ! 0)) (call (CallGetVolumePathNames buf) st)"
  have c2: "calls ?st2 = calls st @ [CallGetVolumePathNames buf, CallGetDriveType (ps ! 0)]"
    "sent ?st2 = sent st" "calls (warn w ?st2) = calls ?st2" "sent (warn w ?st2) = sent st" for w
    by (simp_all add: call_def warn_def)
  have un: "\<not> admitted (DRIVE_UNKNOWN :: uintptr)" by (simp add: admitted_def drive_defs)
  have v: "volume os None buf st =
      (if ?dt = DRIVE_UNKNOWN then (warn (GetLastError os) ?st2, False)
       else rangeVolPaths os None ?dt ps ?st2)"
    using assms by (simp add: volume_def Let_def)
  have a: "calls (fst (volume os None buf st)) =
           calls st @ [CallGetVolumePathNames buf, CallGetDriveType (ps ! 0)] @
             (if admitted ?dt then map CallGetVolumeInformation ps else []) \<and>
         sent (fst (volume os None buf st)) =
           sent st @
             (if admitted ?dt
              then map (\<lambda>p. partitionStat p (GetVolumeInformationW os p))
                     (filter (\<lambda>p. \<not> lookupFailed (GetVolumeInformationW os p)) ps)
              else [])"
  proof (cases "?dt = DRIVE_UNKNOWN")
    case True
    then show ?thesis using un by (simp add: v c2)
  next
    case False
    show ?thesis
    proof (cases "admitted ?dt")
      case True
      from rangeVolPaths_uncancelled [OF True, of os ps ?st2] True False show ?thesis
        by (simp add: v c2)
    next
      case na: False
      from rangeVolPaths_not_admitted [OF na, of os None ps ?st2] na False show ?thesis
        by (simp add: v c2)
    qed
  qed
  have b: "Mountpoint (partitionStat p info) = TrimRight p backslash \<and>
         Device (partitionStat p info) = TrimRight p backslash"
    by (simp add: partitionStat_def Let_def)
  from a b TrimRight_suffix [of p "0x5C"] TrimRight_last [of p "0x5C"] show ?thesis
    by (simp add: backslash_def)
qed

theorem one_classification_per_volume_witness:
  "getVolumePaths twoMounts volA = Inr [rootC, rootD] \<and> [rootC, rootD] \<noteq> [] \<and>
   calls (fst (volume twoMounts None volA start)) =
     [CallGetVolumePathNames volA, CallGetDriveType rootC,
      CallGetVolumeInformation rootC, CallGetVolumeInformation rootD] \<and>
   sent (fst (volume twoMounts None volA start)) =
     [\<lparr>Mountpoint = [0x43, 0x3A], Device = [0x43, 0x3A], Fstype = [0x4E, 0x54, 0x46, 0x53],
       Opts = [''ro'', ''compress'']\<rparr>]"
proof -
  have h1: "getVolumePaths twoMounts volA = Inr [rootC, rootD]"
    by (simp add: producer_defs example_defs)
  have h2: "[rootC, rootD] \<noteq> []" by simp
  have h3: "admitted (GetDriveTypeW twoMounts ([rootC, rootD] ! 0))"
    by (simp add: twoMounts_def admitted_def)
  have h4: "\<not> lookupFailed (GetVolumeInformationW twoMounts rootC)"
    "lookupFailed (GetVolumeInformationW twoMounts rootD)"
    by (simp_all add: twoMounts_def lookupFailed_def ntfs_def notReady_def success_def rootC_def rootD_def)
  have h5: "partitionStat rootC (GetVolumeInformationW twoMounts rootC) =
     \<lparr>Mountpoint = [0x43, 0x3A], Device = [0x43, 0x3A], Fstype = [0x4E, 0x54, 0x46, 0x53],
       Opts = [''ro'', ''compress'']\<rparr>"
    by (simp add: producer_defs example_defs)
  have h6: "calls start = []" "sent start = []" by (simp_all add: start_def)
  from one_classification_per_volume [OF h1 h2, of start rootC ntfs] h1 h3 h4 h5 h6
  show ?thesis by simp
qed

section \<open>The I/O counters\<close>

lemma sint_word_of_int_small:
  assumes "0 \<le> x" and "x < 2 ^ 63"
  shows "sint (word_of_int x :: 64 word) = x"
  using assms by (simp add: signed_of_int signed_take_bit_int_eq_self)

lemma div_int64_nonneg:
  assumes "0 \<le> sint a" and "0 < d" and "d < 2 ^ 63"
  shows "div_int64 a (word_of_int d) = word_of_int (sint a div d)"
    and "0 \<le> sint a div d" and "sint a div d < 2 ^ 63"
proof -
  have sd: "sint (word_of_int d :: 64 word) = d"
    using assms by (simp add: sint_word_of_int_small)
  have q: "sint a sdiv d = sint a div d"
    using assms by (simp add: signed_divide_int_def sgn_if)
  show "div_int64 a (word_of_int d) = word_of_int (sint a div d)"
    by (simp add: div_int64_def sd q)
  show "0 \<le> sint a div d" using assms by (simp add: pos_imp_zdiv_nonneg_iff)
  have "sint a div d \<le> sint a div 1"
    using assms by (intro zdiv_mono2) simp_all
  moreover have "sint a < 2 ^ 63" using sint_lt [of a] by simp
  ultimately show "sint a div d < 2 ^ 63" by simp
qed

lemma busy_time_nonneg:
  assumes "0 \<le> sint t"
  shows "uint (div_int64 (div_int64 t 10000) 1000) = sint t div 10000000"
proof -
  note a = div_int64_nonneg [OF assms, of 10000, simplified]
  have sa: "sint (div_int64 t 10000) = sint t div 10000"
    using a by (simp add: sint_word_of_int_small)
  then have nn: "0 \<le> sint (div_int64 t 10000)" using a by simp
  note b = div_int64_nonneg [OF nn, of 1000, simplified]
  have c: "sint t div 10000 div 1000 = sint t div 10000000"
    by (simp add: div_mult2_eq [symmetric])
  have "uint (word_of_int (sint t div 10000000) :: 64 word) = sint t div 10000000"
    using b by (simp add: sa c uint_word_of_int)
  then show ?thesis using b by (simp add: sa c)
qed

lemma rangeLpBuffer_entries:
  assumes "\<forall>path s. m path = Some s \<longrightarrow> (\<exists>h. s = ioCountersStat path (snd (DeviceIoControl os h)))"
  shows "\<forall>path s. fst (rangeLpBuffer os vs m) path = Some s \<longrightarrow>
           (\<exists>h. s = ioCountersStat path (snd (DeviceIoControl os h)))"
  using assms
proof (induction vs arbitrary: m)
  case Nil
  then show ?case by simp
next
  case (Cons v vs)
  let ?path = "[v, 0x3A]"
  let ?Q = "\<lambda>m. \<forall>path s. m path = Some s \<longrightarrow> (\<exists>h. s = ioCountersStat path (snd (DeviceIoControl os h)))"
  obtain h err where cf: "CreateFile os ([0x5C, 0x5C, 0x2E, 0x5C] @ ?path) = (h, err)"
    by (cases "CreateFile os ([0x5C, 0x5C, 0x2E, 0x5C] @ ?path)")
  obtain err' dp where dc: "DeviceIoControl os h = (err', dp)" by (cases "DeviceIoControl os h")
  have q0: "?Q (fst (rangeLpBuffer os vs m))" by (rule Cons.IH [OF Cons.prems])
  have "?Q (m(?path \<mapsto> ioCountersStat ?path dp))"
    using Cons.prems dc by (auto intro: exI [of _ h])
  then have q1: "?Q (fst (rangeLpBuffer os vs (m(?path \<mapsto> ioCountersStat ?path dp))))"
    by (rule Cons.IH)
  have q2: "?Q (fst (m, e))" for e :: "error option" using Cons.prems by simp
  show ?case
    using q0 q1 q2 cf dc
    by (simp add: Let_def split: if_split)
qed

text \<open>
  C9. The result of \<open>IOCountersWithContext\<close>, the map and the error (or the panic), is the
  same for any two lists of names on the same system: the parameter is never read.
\<close>

theorem names_are_ignored:
  "IOCountersWithContext os ctx names = IOCountersWithContext os ctx names'"
  by (simp add: IOCountersWithContext_def)

text \<open>
  C2, as the claim states it, fails. On a system whose one fixed drive reports a read time
  and a write time of 10,000,000, the fields \<open>ReadTime\<close> and \<open>WriteTime\<close> of the result
  are 1, not 1000: dividing by 10,000 and then by 1,000 is dividing by 10,000,000.
\<close>

theorem busy_time_counterexample:
  "ReadTime counters = 10000000 \<and> WriteTime counters = 10000000 \<and>
   map_option ReadTime_of (fst (returned (IOCountersWithContext oneDrive background [])) driveC) = Some 1 \<and>
   map_option WriteTime_of (fst (returned (IOCountersWithContext oneDrive background [])) driveC) = Some 1 \<and>
   (1 :: 64 word) \<noteq> 1000"
  by (simp add: IOCountersWithContext_def ioCountersStat_def div_int64_def signed_divide_int_def
      example_defs drive_defs ERROR_FILE_NOT_FOUND_def Let_def)

text \<open>
  C2, amended. The two time fields of every entry are the raw counter divided by 10,000 and
  then by 1,000 with Go's truncating division; for a counter that is not negative this is
  the counter divided by 10,000,000. A raw counter of 10,000,000 gives exactly 1. Every
  entry of the returned map was built this way from what \<open>DeviceIoControl\<close> reported.
\<close>

theorem busy_time_conversion:
  "ReadTime_of (ioCountersStat path dp) = div_int64 (div_int64 (ReadTime dp) 10000) 1000 \<and>
   WriteTime_of (ioCountersStat path dp) = div_int64 (div_int64 (WriteTime dp) 10000) 1000 \<and>
   (0 \<le> sint t \<longrightarrow> uint (div_int64 (div_int64 t 10000) 1000) = sint t div 10000000) \<and>
   div_int64 (div_int64 10000000 10000) 1000 = 1 \<and>
   (IOCountersWithContext os ctx names = Returns (m, e) \<and> m path = Some s \<longrightarrow>
      (\<exists>h. s = ioCountersStat path (snd (DeviceIoControl os h))))"
proof -
  have a: "ReadTime_of (ioCountersStat path dp) = div_int64 (div_int64 (ReadTime dp) 10000) 1000 \<and>
   WriteTime_of (ioCountersStat path dp) = div_int64 (div_int64 (WriteTime dp) 10000) 1000"
    by (simp add: ioCountersStat_def)
  have b: "div_int64 (div_int64 10000000 10000) 1000 = 1"
    by (simp add: div_int64_def signed_divide_int_def)
  have c: "\<exists>h. s = ioCountersStat path (snd (DeviceIoControl os h))"
    if r: "IOCountersWithContext os ctx names = Returns (m, e)" and ms: "m path = Some s"
  proof -
    obtain n err written where g: "GetLogicalDriveStrings os = (n, err, written)"
      by (cases "GetLogicalDriveStrings os")
    let ?buf = "take 254 (written @ replicate (254 - length written) 0)"
    have e0: "\<forall>path s. (Map.empty :: utf16 \<rightharpoonup> IOCountersStat) path = Some s \<longrightarrow>
        (\<exists>h. s = ioCountersStat path (snd (DeviceIoControl os h)))" by simp
    from r have "m = Map.empty \<or> m = fst (rangeLpBuffer os (take (unat n) ?buf) Map.empty)"
      by (auto simp: IOCountersWithContext_def g Let_def split: if_splits)
    with ms rangeLpBuffer_entries [OF e0, of "take (unat n) ?buf"] show ?thesis by auto
  qed
  from a b c busy_time_nonneg show ?thesis by blast
qed

theorem busy_time_conversion_witness:
  "0 \<le> sint (10000000 :: 64 word) \<and>
   uint (div_int64 (div_int64 10000000 10000) 1000) = 1 \<and>
   uint (div_int64 (div_int64 10000000000 10000) 1000) = 1000"
proof -
  have h1: "0 \<le> sint (10000000 :: 64 word)" by simp
  have h2: "0 \<le> sint (10000000000 :: 64 word)" by simp
  have v1: "sint (10000000 :: 64 word) div 10000000 = 1" by simp
  have v2: "sint (10000000000 :: 64 word) div 10000000 = 1000" by simp
  have a: "uint (div_int64 (div_int64 10000000 10000) 1000) = 1"
    using busy_time_conversion [where t = 10000000, THEN conjunct2, THEN conjunct2,
        THEN conjunct1, THEN mp, OF h1]
    by (simp only: v1)
  have b: "uint (div_int64 (div_int64 10000000000 10000) 1000) = 1000"
    using busy_time_conversion [where t = 10000000000, THEN conjunct2, THEN conjunct2,
        THEN conjunct1, THEN mp, OF h2]
    by (simp only: v2)
  from h1 a b show ?thesis by blast
qed

end
